theory Spec2Isabelle
  imports Main "HOL-Library.Word" "HOL-Library.Multiset"
begin

unbundle bit_operations_syntax

section \<open>Errors of the client\<close>

text \<open>
  The client signals every failure by throwing. The constructors carry the names of the
  specification's taxonomy; the message the source throws is given beside each one.
  \<^item> \<open>Usage\<close>: \<open>printHelp(1)\<close>, the usage text and exit status 1, whatever argument was
    wrong: the source does not tell the specification's \<open>MalformedNote\<close> from its
    \<open>MalformedAddress\<close>;
  \<^item> \<open>TreeCorrupted\<close>: assertion \<open>Merkle tree is corrupted\<close>;
  \<^item> \<open>AlreadySpent\<close>: assertion \<open>The note is already spent\<close>;
  \<^item> \<open>NotFound\<close>: assertion \<open>The deposit is not found in the tree\<close>;
  \<^item> \<open>NetworkMismatch\<close>: assertion \<open>This relay is for different network\<close>;
  \<^item> \<open>ConfirmationTimeout\<close>: \<open>Error('tx was not mined')\<close>;
  \<^item> \<open>LedgerCallFailed\<close>, \<open>RelayUnreachable\<close>: a rejected web3 or axios promise;
  \<^item> \<open>IndexOutOfRange\<close>: the tree's \<open>path\<close> on an index with no leaf;
  \<^item> \<open>NumberDoesNotFit\<close>: snarkjs, \<open>Error('Number does not feed in buffer')\<close>;
  \<^item> \<open>NotANumber\<close>: \<open>BigInt\<close> on a string that is no integer literal (a SyntaxError);
  \<^item> \<open>InvalidAmount\<close>: \<open>toWei\<close> on a text that is no decimal amount of the unit;
  \<^item> \<open>ProofFailed\<close>: the proof backend rejected.
\<close>

datatype error =
    Usage | TreeCorrupted | AlreadySpent | NotFound
  | NetworkMismatch | ConfirmationTimeout | LedgerCallFailed | RelayUnreachable
  | IndexOutOfRange | NumberDoesNotFit | NotANumber | ProofFailed | InvalidAmount

section \<open>Buffers and big integers (snarkjs, Node)\<close>

type_synonym byte = "8 word"
type_synonym buffer = "byte list"

text \<open>
  snarkjs \<open>bigInt.leInt2Buff(n, len)\<close>:
  \<^verbatim>\<open>
    let r = n; let o = 0;
    const buff = Buffer.alloc(len);
    while ((r>0)&&(o<buff.length)) {
        let c = Number(r & BigInt(255));
        buff[o] = c; o++; r = r >> BigInt(8);
    }
    if (r>0) throw new Error("Number does not feed in buffer");
    return buff;
  \<close>
  The scalars of this client are results of \<open>leBuff2int\<close>, so they are never negative:
  they are modelled as \<open>nat\<close>.
\<close>

function leInt2Buff_loop :: "nat \<Rightarrow> nat \<Rightarrow> buffer \<Rightarrow> nat \<times> buffer" where
  "leInt2Buff_loop r ofs buff =
     (if r > 0 \<and> ofs < length buff
      then leInt2Buff_loop (drop_bit 8 r) (ofs + 1) (buff[ofs := of_nat (r AND 255)])
      else (r, buff))"
  by pat_completeness auto
termination
  by (relation "measure (\<lambda>(r, ofs, buff). length buff - ofs)") auto

declare leInt2Buff_loop.simps [simp del]

definition leInt2Buff :: "nat \<Rightarrow> nat \<Rightarrow> error + buffer" where
  "leInt2Buff n len =
     (case leInt2Buff_loop n 0 (replicate len 0) of
        (r, buff) \<Rightarrow> if r > 0 then Inl NumberDoesNotFit else Inr buff)"

text \<open>
  snarkjs \<open>bigInt.leBuff2int(buff)\<close>:
  \<^verbatim>\<open>
    let res = BigInt(0);
    for (let i=0; i<buff.length; i++) {
        const n = BigInt(buff[i]);
        res = res + (n << BigInt(i*8));
    }
    return res;
  \<close>
\<close>

function leBuff2int_loop :: "buffer \<Rightarrow> nat \<Rightarrow> nat \<Rightarrow> nat" where
  "leBuff2int_loop buff i res =
     (if i < length buff
      then leBuff2int_loop buff (i + 1) (res + push_bit (i * 8) (unat (buff ! i)))
      else res)"
  by pat_completeness auto
termination
  by (relation "measure (\<lambda>(buff, i, res). length buff - i)") auto

declare leBuff2int_loop.simps [simp del]

definition leBuff2int :: "buffer \<Rightarrow> nat" where
  "leBuff2int buff = leBuff2int_loop buff 0 0"

text \<open>The specification's \<open>leBytes(n, k)\<close>: the \<open>k\<close> low bytes of \<open>n\<close>, lowest first.\<close>

definition leBytes :: "nat \<Rightarrow> nat \<Rightarrow> buffer" where
  "leBytes n k = map (\<lambda>i. of_nat (n div 256 ^ i mod 256)) [0..<k]"

text \<open>The number a buffer denotes when read lowest byte first.\<close>

fun leValue :: "buffer \<Rightarrow> nat" where
  "leValue [] = 0"
| "leValue (b # bs) = unat b + 256 * leValue bs"

section \<open>Hexadecimal text (Node, BigInt)\<close>

definition hexDigit :: "nat \<Rightarrow> char" where
  "hexDigit d = (if d < 10 then char_of (48 + d) else char_of (87 + d))"

definition hexVal :: "char \<Rightarrow> nat option" where
  "hexVal c =
     (let v = (of_char c :: nat) in
      if 48 \<le> v \<and> v \<le> 57 then Some (v - 48)
      else if 97 \<le> v \<and> v \<le> 102 then Some (v - 87)
      else if 65 \<le> v \<and> v \<le> 70 then Some (v - 55)
      else None)"

text \<open>A hexadecimal digit that is not an uppercase letter: the digit of its own value.\<close>

definition lowerHex :: "char \<Rightarrow> bool" where
  "lowerHex c = (case hexVal c of None \<Rightarrow> False | Some d \<Rightarrow> hexDigit d = c)"

text \<open>A hexadecimal digit in lowercase; any other character as it is.\<close>

definition toLowerHex :: "char \<Rightarrow> char" where
  "toLowerHex c = (case hexVal c of None \<Rightarrow> c | Some d \<Rightarrow> hexDigit d)"

text \<open>\<open>buf.toString('hex')\<close>: two lowercase digits for each byte.\<close>

definition toString_hex :: "buffer \<Rightarrow> string" where
  "toString_hex buf =
     concat (map (\<lambda>b. [hexDigit (unat b div 16), hexDigit (unat b mod 16)]) buf)"

text \<open>\<open>bigInt(n).toString(16)\<close>: the lowercase digits of \<open>n\<close> with no leading zero.\<close>

function toString16 :: "nat \<Rightarrow> string" where
  "toString16 n =
     (if n < 16 then [hexDigit n] else toString16 (n div 16) @ [hexDigit (n mod 16)])"
  by pat_completeness auto
termination
  by (relation "measure (\<lambda>n. n)") auto

declare toString16.simps [simp del]

text \<open>\<open>str.padStart(targetLength, c)\<close> pads on the left and never shortens.\<close>

definition padStart :: "string \<Rightarrow> nat \<Rightarrow> char \<Rightarrow> string" where
  "padStart str targetLength c = replicate (targetLength - length str) c @ str"

text \<open>
  \<open>Buffer.from(str, 'hex')\<close> reads two digits for each byte and stops at the first pair
  that is not two hexadecimal digits; a last single character is dropped.
\<close>

fun Buffer_from_hex :: "string \<Rightarrow> buffer" where
  "Buffer_from_hex (a # b # rest) =
     (case (hexVal a, hexVal b) of
        (Some x, Some y) \<Rightarrow> of_nat (16 * x + y) # Buffer_from_hex rest
      | _ \<Rightarrow> [])"
| "Buffer_from_hex _ = []"

text \<open>
  \<open>toHex(number, length = 32)\<close>:
  \<^verbatim>\<open>
    let str = number instanceof Buffer ? number.toString('hex') : bigInt(number).toString(16)
    return '0x' + str.padStart(length * 2, '0')
  \<close>
  The argument is a Buffer or a big integer at every call of the source.
\<close>

datatype hexable = Buffer buffer | BigInt nat

definition toHex :: "hexable \<Rightarrow> nat \<Rightarrow> string" where
  "toHex number len =
     (let str = (case number of Buffer b \<Rightarrow> toString_hex b | BigInt n \<Rightarrow> toString16 n)
      in ''0x'' @ padStart str (len * 2) CHR ''0'')"

text \<open>
  The regular expressions of \<open>runConsole\<close>: \<open>/^0x[0-9a-fA-F]{124}$/\<close> for a note and
  \<open>/^0x[0-9a-fA-F]{40}$/\<close> for an address.
\<close>

definition hexLiteral :: "nat \<Rightarrow> string \<Rightarrow> bool" where
  "hexLiteral k s \<longleftrightarrow>
     take 2 s = ''0x'' \<and> length s = 2 + k \<and> list_all (\<lambda>c. hexVal c \<noteq> None) (drop 2 s)"

definition noteFormat :: "string \<Rightarrow> bool" where
  "noteFormat s = hexLiteral 124 s"

definition addressFormat :: "string \<Rightarrow> bool" where
  "addressFormat s = hexLiteral 40 s"

text \<open>
  \<open>bigInt(x)\<close> is \<open>BigInt(x)\<close> (snarkjs wraps the native type). A number is taken as it is.
  A string is read by the language's \<open>StringToBigInt\<close>: white space is stripped from both
  ends; the empty text is 0; after \<open>0x\<close>, \<open>0b\<close> or \<open>0o\<close> (the letter in either case) come
  one or more digits of base 16, 2 or 8; otherwise an optional \<open>+\<close> or \<open>-\<close> and one or more
  decimal digits; anything else is a SyntaxError. A string is the list of its code
  units, each below 256: the white space characters are then tab, line feed, vertical
  tab, form feed, carriage return, space and the no-break space. The numbers of the
  model are the non-negative whole numbers: the default 0 and a network id.
\<close>

datatype jsval = JNumber nat | JString string

definition isStrWhiteSpace :: "char \<Rightarrow> bool" where
  "isStrWhiteSpace c =
     (let v = (of_char c :: nat) in (9 \<le> v \<and> v \<le> 13) \<or> v = 32 \<or> v = 160)"

definition trim :: "string \<Rightarrow> string" where
  "trim s = rev (dropWhile isStrWhiteSpace (rev (dropWhile isStrWhiteSpace s)))"

fun parseDigits :: "nat \<Rightarrow> string \<Rightarrow> nat \<Rightarrow> error + nat" where
  "parseDigits base [] acc = Inr acc"
| "parseDigits base (c # cs) acc =
     (case hexVal c of
        None \<Rightarrow> Inl NotANumber
      | Some d \<Rightarrow> if d < base then parseDigits base cs (acc * base + d) else Inl NotANumber)"

definition digitsValue :: "nat \<Rightarrow> string \<Rightarrow> error + int" where
  "digitsValue base ds =
     (if ds = [] then Inl NotANumber else map_sum id int (parseDigits base ds 0))"

definition StringToBigInt :: "string \<Rightarrow> error + int" where
  "StringToBigInt str =
     (let s = trim str; prefix = take 2 s
      in if s = [] then Inr 0
         else if prefix = ''0x'' \<or> prefix = ''0X'' then digitsValue 16 (drop 2 s)
         else if prefix = ''0b'' \<or> prefix = ''0B'' then digitsValue 2 (drop 2 s)
         else if prefix = ''0o'' \<or> prefix = ''0O'' then digitsValue 8 (drop 2 s)
         else if hd s = CHR ''-'' then map_sum id uminus (digitsValue 10 (tl s))
         else if hd s = CHR ''+'' then digitsValue 10 (tl s)
         else digitsValue 10 s)"

definition bigInt :: "jsval \<Rightarrow> error + int" where
  "bigInt x = (case x of JNumber n \<Rightarrow> Inr (int n) | JString s \<Rightarrow> StringToBigInt s)"

text \<open>
  \<open>toHex\<close> of a big integer that may be negative, as \<open>bigInt\<close> of a text can be:
  \<open>toString(16)\<close> of a negative number is \<open>-\<close> and the digits of its magnitude, and the
  padding goes before the sign.
\<close>

definition toHex_bigint :: "int \<Rightarrow> nat \<Rightarrow> string" where
  "toHex_bigint v len =
     (if 0 \<le> v then toHex (BigInt (nat v)) len
      else ''0x'' @ padStart (CHR ''-'' # toString16 (nat (- v))) (len * 2) CHR ''0'')"

section \<open>Commitment codec\<close>

record deposit =
  nullifier :: nat
  secret :: nat
  preimage :: buffer
  commitment :: nat
  nullifierHash :: nat

text \<open>
  \<open>createDeposit(nullifier, secret)\<close>. The hash \<open>pedersenHash\<close> (circomlib) is a
  parameter: nothing is assumed of it. Each \<open>leInt2Buff(31)\<close> can throw.
\<close>

definition createDeposit :: "(buffer \<Rightarrow> nat) \<Rightarrow> nat \<Rightarrow> nat \<Rightarrow> error + deposit" where
  "createDeposit pedersenHash nul sec =
     (case leInt2Buff nul 31 of Inl e \<Rightarrow> Inl e | Inr nb \<Rightarrow>
      case leInt2Buff sec 31 of Inl e \<Rightarrow> Inl e | Inr sb \<Rightarrow>
      case leInt2Buff nul 31 of Inl e \<Rightarrow> Inl e | Inr nb' \<Rightarrow>
        Inr \<lparr> nullifier = nul, secret = sec, preimage = nb @ sb,
              commitment = pedersenHash (nb @ sb), nullifierHash = pedersenHash nb' \<rparr>)"

text \<open>
  The note of a deposit, \<open>deposit()\<close>: \<open>const note = toHex(deposit.preimage, 62)\<close>.
\<close>

definition encodeNote :: "buffer \<Rightarrow> string" where
  "encodeNote pre = toHex (Buffer pre) 62"

text \<open>
  The deposit of a note, the first two lines of \<open>generateProof\<close>:
  \<^verbatim>\<open>
    let buf = Buffer.from(note.slice(2), 'hex')
    let deposit = createDeposit(bigInt.leBuff2int(buf.slice(0, 31)),
                                bigInt.leBuff2int(buf.slice(31, 62)))
  \<close>
  Nothing here looks at the note's format.
\<close>

definition decodeNote :: "(buffer \<Rightarrow> nat) \<Rightarrow> string \<Rightarrow> error + deposit" where
  "decodeNote pedersenHash note =
     (let buf = Buffer_from_hex (drop 2 note)
      in createDeposit pedersenHash (leBuff2int (take 31 buf))
           (leBuff2int (take 31 (drop 31 buf))))"


section \<open>Accumulator (Merkle tree)\<close>

text \<open>
  Modelled from the spec: \<open>lib/MerkleTree\<close>, the class behind
  \<open>new merkleTree(MERKLE_TREE_HEIGHT, leaves)\<close>, \<open>tree.root()\<close> and \<open>tree.path(i)\<close>, is
  not among the sources. The specification's words: Construct "builds level 0 from
  leaves padded conceptually with a canonical zero-value to width \<open>2^height\<close>; each higher
  level \<open>i\<close> has node \<open>k = H(level[i-1][2k], level[i-1][2k+1])\<close>; repeats to a single
  root"; Root is the "top node of the built tree"; Path "for each level, emits the
  sibling node and which side (0 = left, 1 = right) the path element occupied, from leaf
  to root", and "fails with IndexOutOfRange if leafIndex is negative or at least the
  number of real leaves".

  The two-to-one hash \<open>H\<close> and the zero value \<open>z\<close> are parameters. A leaf sequence longer
  than \<open>2^height\<close> has no padding to that width: the specification says nothing of it,
  and the theorems on the tree assume at most \<open>2^height\<close> leaves.
\<close>

definition padded :: "'a \<Rightarrow> nat \<Rightarrow> 'a list \<Rightarrow> 'a list" where
  "padded z height leaves = leaves @ replicate (2 ^ height - length leaves) z"

fun next_level :: "('a \<Rightarrow> 'a \<Rightarrow> 'a) \<Rightarrow> 'a list \<Rightarrow> 'a list" where
  "next_level H (l # r # rest) = H l r # next_level H rest"
| "next_level H _ = []"

fun level :: "('a \<Rightarrow> 'a \<Rightarrow> 'a) \<Rightarrow> 'a list \<Rightarrow> nat \<Rightarrow> 'a list" where
  "level H base 0 = base"
| "level H base (Suc i) = next_level H (level H base i)"

record 'a merkleTree =
  tree_height :: nat
  tree_leaves :: "'a list"
  tree_levels :: "'a list list"

definition Construct :: "('a \<Rightarrow> 'a \<Rightarrow> 'a) \<Rightarrow> 'a \<Rightarrow> nat \<Rightarrow> 'a list \<Rightarrow> 'a merkleTree" where
  "Construct H z height leaves =
     \<lparr> tree_height = height, tree_leaves = leaves,
       tree_levels = map (level H (padded z height leaves)) [0..<Suc height] \<rparr>"

definition Root :: "'a merkleTree \<Rightarrow> 'a" where
  "Root t = tree_levels t ! tree_height t ! 0"

record 'a merkle_path =
  path_elements :: "'a list"
  path_index :: "nat list"

definition sibling :: "nat \<Rightarrow> nat" where
  "sibling k = (if even k then k + 1 else k - 1)"

definition Path :: "'a merkleTree \<Rightarrow> nat \<Rightarrow> error + 'a merkle_path" where
  "Path t i =
     (if i < length (tree_leaves t)
      then Inr \<lparr> path_elements =
                   map (\<lambda>l. tree_levels t ! l ! sibling (i div 2 ^ l)) [0..<tree_height t],
                 path_index = map (\<lambda>l. i div 2 ^ l mod 2) [0..<tree_height t] \<rparr>
      else Inl IndexOutOfRange)"

text \<open>
  The recombination of a path with its leaf, as the verifier of an inclusion proof does
  it: at each level the running node is hashed with the path element, on the left when
  the recorded bit is 0 and on the right when it is 1.
\<close>

fun recombine :: "('a \<Rightarrow> 'a \<Rightarrow> 'a) \<Rightarrow> 'a \<Rightarrow> 'a list \<Rightarrow> nat list \<Rightarrow> 'a" where
  "recombine H cur (e # es) (b # bs) =
     recombine H (if b = 0 then H cur e else H e cur) es bs"
| "recombine H cur _ _ = cur"

section \<open>The session: ledger, relay and proof backend\<close>

text \<open>
  A \<open>Deposit\<close> event of the contract. web3 delivers \<open>returnValues.leafIndex\<close> as a decimal
  string, which the source only uses as a number, and \<open>returnValues.commitment\<close>, a
  \<open>bytes32\<close>, as \<open>0x\<close> and 64 lowercase digits: the event holds the number and
  \<open>returnValues_commitment\<close> is that text.
\<close>

record event =
  leafIndex :: nat
  ev_commitment :: nat

definition returnValues_commitment :: "event \<Rightarrow> string" where
  "returnValues_commitment e = toHex (BigInt (ev_commitment e)) 32"

text \<open>
  A transaction receipt as far as the client reads it; \<open>blockNumber\<close> is \<open>null\<close> while the
  transaction is pending. A query of the ledger resolves with a receipt or with \<open>null\<close>,
  or is rejected.
\<close>

record receipt =
  blockNumber :: "nat option"

datatype query = Rejected | Answer "receipt option"

text \<open>
  The answer of the relay to \<open>GET /status\<close>, and the body of \<open>POST /relay\<close>.
  \<open>gasPrices_fast\<close> is the text \<open>gasPrices.fast.toString()\<close>, which is all the source reads
  of the quote: the number 5 prints as \<open>5\<close>, one and a half as \<open>1.5\<close>, and a number from
  \<open>1e21\<close> on, or below \<open>1e-6\<close>, prints with an exponent, as \<open>1e+21\<close>.
\<close>

record status =
  relayerAddress :: string
  netId :: jsval
  gasPrices_fast :: string

record 'p relay_body =
  body_contract :: string
  body_proof :: 'p
  publicSignals :: "string list"

text \<open>The input of the proof backend, as \<open>generateProof\<close> assembles it.\<close>

record circuit_input =
  in_root :: nat
  in_nullifierHash :: nat
  in_recipient :: int
  in_relayer :: int
  in_fee :: int
  in_refund :: int
  in_nullifier :: nat
  in_secret :: nat
  in_pathElements :: "nat list"
  in_pathIndices :: "nat list"

text \<open>
  The module's state (\<open>web3\<close>, \<open>tornado\<close>, \<open>groth16\<close>, \<open>circuit\<close>, \<open>proving_key\<close>) and the
  collaborators behind it. A call that is rejected answers \<open>None\<close>.
  \<^item> \<open>pedersenHash\<close>, \<open>hashLeftRight\<close>, \<open>zero_value\<close>: the hash of the codec, and the hash
    and the zero leaf of the tree;
  \<^item> \<open>getPastEvents\<close>, \<open>isKnownRoot\<close>, \<open>isSpent\<close>, \<open>send_withdraw\<close>, \<open>contract_address\<close>:
    the contract \<open>tornado\<close>;
  \<^item> \<open>net_getId\<close>, \<open>getTransactionReceipt\<close>: \<open>web3.eth\<close>; the second argument of
    \<open>getTransactionReceipt\<close> counts the queries made before for the same hash;
  \<^item> \<open>genWitnessAndProve\<close>: the proof backend, \<open>toSolidityInput\<close> included;
  \<^item> \<open>relay_status\<close>, \<open>relay_post\<close>: the relay at a URL.
\<close>

record 'p env =
  pedersenHash :: "buffer \<Rightarrow> nat"
  hashLeftRight :: "nat \<Rightarrow> nat \<Rightarrow> nat"
  zero_value :: nat
  getPastEvents :: "event list option"
  isKnownRoot :: "string \<Rightarrow> bool option"
  isSpent :: "string \<Rightarrow> bool option"
  send_withdraw :: "'p \<Rightarrow> string list \<Rightarrow> unit option"
  contract_address :: string
  net_getId :: "nat option"
  getTransactionReceipt :: "string \<Rightarrow> nat \<Rightarrow> query"
  genWitnessAndProve :: "circuit_input \<Rightarrow> 'p option"
  relay_status :: "string \<Rightarrow> status option"
  relay_post :: "string \<Rightarrow> 'p relay_body \<Rightarrow> string option"

section \<open>Chain state reconstructor\<close>

definition MERKLE_TREE_HEIGHT :: nat where
  "MERKLE_TREE_HEIGHT = 20"

text \<open>
  \<^verbatim>\<open>
    events.sort((a, b) => a.returnValues.leafIndex - b.returnValues.leafIndex)
  \<close>
  \<open>Array.prototype.sort\<close> is stable (the README asks for node v11.15.0): events of equal
  \<open>leafIndex\<close> keep their order of delivery, as with \<open>sort_key\<close>. It sorts in place, so
  the \<open>find\<close> after it scans the sorted events.
\<close>

definition sortEvents :: "event list \<Rightarrow> event list" where
  "sortEvents events = sort_key leafIndex events"

definition leavesOf :: "event list \<Rightarrow> nat list" where
  "leavesOf events = map ev_commitment (sortEvents events)"

record merkle_proof =
  root :: nat
  proof_elements :: "nat list"
  proof_index :: "nat list"

text \<open>
  \<open>generateMerkleProof(contract, deposit)\<close>. Both calls of the contract are made before
  the three assertions, which are checked in the order of the source: the root, the
  nullifier, the leaf. \<open>leafIndex\<close> is \<open>-1\<close> when no event has the commitment. The source
  answers the result of \<open>tree.path(leafIndex)\<close>, from which \<open>generateProof\<close> reads \<open>root\<close>,
  \<open>path_elements\<close> and \<open>path_index\<close>: the root is \<open>Root\<close> of the tree here.
\<close>

definition generateMerkleProof :: "'p env \<Rightarrow> deposit \<Rightarrow> error + merkle_proof" where
  "generateMerkleProof contract dep =
     (case getPastEvents contract of
        None \<Rightarrow> Inl LedgerCallFailed
      | Some events \<Rightarrow>
          let leaves = leavesOf events;
              tree = Construct (hashLeftRight contract) (zero_value contract)
                       MERKLE_TREE_HEIGHT leaves;
              depositEvent = find (\<lambda>e. returnValues_commitment e =
                                         toHex (BigInt (commitment dep)) 32)
                               (sortEvents events);
              leafIdx = (case depositEvent of
                           Some e \<Rightarrow> int (leafIndex e)
                         | None \<Rightarrow> - 1)
          in case isKnownRoot contract (toHex (BigInt (Root tree)) 32) of
               None \<Rightarrow> Inl LedgerCallFailed
             | Some isValidRoot \<Rightarrow>
                 (case isSpent contract (toHex (BigInt (nullifierHash dep)) 32) of
                    None \<Rightarrow> Inl LedgerCallFailed
                  | Some spent \<Rightarrow>
                      if \<not> isValidRoot then Inl TreeCorrupted
                      else if spent then Inl AlreadySpent
                      else if \<not> leafIdx \<ge> 0 then Inl NotFound
                      else (case Path tree (nat leafIdx) of
                              Inl e \<Rightarrow> Inl e
                            | Inr p \<Rightarrow>
                                Inr \<lparr> root = Root tree,
                                      proof_elements = path_elements p,
                                      proof_index = path_index p \<rparr>)))"

section \<open>Proof request assembler\<close>

text \<open>
  \<open>generateProof(contract, note, recipient, relayer = 0, fee = 0, refund = 0)\<close> answers
  the proof and the six arguments of the contract's \<open>withdraw\<close>. \<open>fee\<close> and \<open>refund\<close> are
  big integers or the default 0 at every call, so \<open>bigInt\<close> leaves them as they are.
\<close>

definition generateProof ::
  "'p env \<Rightarrow> string \<Rightarrow> jsval \<Rightarrow> jsval \<Rightarrow> int \<Rightarrow> int \<Rightarrow> error + 'p \<times> string list" where
  "generateProof contract note recipient relayer fee refund =
     (case decodeNote (pedersenHash contract) note of Inl e \<Rightarrow> Inl e | Inr dep \<Rightarrow>
      case generateMerkleProof contract dep of Inl e \<Rightarrow> Inl e | Inr mp \<Rightarrow>
      case bigInt recipient of Inl e \<Rightarrow> Inl e | Inr rcp \<Rightarrow>
      case bigInt relayer of Inl e \<Rightarrow> Inl e | Inr rel \<Rightarrow>
        let input = \<lparr> in_root = root mp, in_nullifierHash = nullifierHash dep,
                      in_recipient = rcp, in_relayer = rel, in_fee = fee,
                      in_refund = refund, in_nullifier = nullifier dep,
                      in_secret = secret dep, in_pathElements = proof_elements mp,
                      in_pathIndices = proof_index mp \<rparr>
        in case genWitnessAndProve contract input of
             None \<Rightarrow> Inl ProofFailed
           | Some proof \<Rightarrow>
               Inr (proof,
                    [toHex (BigInt (in_root input)) 32,
                     toHex (BigInt (in_nullifierHash input)) 32,
                     toHex_bigint (in_recipient input) 20,
                     toHex_bigint (in_relayer input) 20,
                     toHex_bigint (in_fee input) 32,
                     toHex_bigint (in_refund input) 32]))"

section \<open>Withdrawal orchestrator\<close>

text \<open>\<open>withdraw(note, recipient)\<close>: the proof, then the contract's \<open>withdraw\<close>.\<close>

definition withdraw :: "'p env \<Rightarrow> string \<Rightarrow> string \<Rightarrow> error + unit" where
  "withdraw tornado note recipient =
     (case generateProof tornado note (JString recipient) (JNumber 0) 0 0 of
        Inl e \<Rightarrow> Inl e
      | Inr (proof, args) \<Rightarrow>
          (case send_withdraw tornado proof args of
             None \<Rightarrow> Inl LedgerCallFailed
           | Some u \<Rightarrow> Inr u))"

text \<open>
  \<open>waitForTxReceipt(txHash, attempts = 60, delay = 1000)\<close>:
  \<^verbatim>\<open>
    const checkForTx = async (txHash, retryAttempt = 0) => {
      const result = await web3.eth.getTransactionReceipt(txHash)
      if (!result || !result.blockNumber) {
        if (retryAttempt <= attempts) {
          setTimeout(() => checkForTx(txHash, retryAttempt + 1), delay)
        } else {
          reject(new Error('tx was not mined'))
        }
      } else {
        resolve(result)
      }
    }
    checkForTx(txHash)
  \<close>
  Each call of \<open>checkForTx\<close> makes one query, so the call with \<open>retryAttempt = k\<close> makes
  query number \<open>k\<close> (from 0), after \<open>k\<close> timers of \<open>delay\<close> milliseconds. A query that is
  rejected rejects the promise of \<open>checkForTx\<close>, which nobody awaits: the promise of
  \<open>waitForTxReceipt\<close> then never settles, the outcome \<open>None\<close>. \<open>!result.blockNumber\<close>
  holds of \<open>null\<close> and of 0.
\<close>

record wait_result =
  outcome :: "(error + receipt) option"
  queries :: nat
  waited :: nat

definition notMined :: "receipt option \<Rightarrow> bool" where
  "notMined result =
     (case result of
        None \<Rightarrow> True
      | Some r \<Rightarrow> (case blockNumber r of None \<Rightarrow> True | Some b \<Rightarrow> b = 0))"

function checkForTx :: "(nat \<Rightarrow> query) \<Rightarrow> nat \<Rightarrow> nat \<Rightarrow> nat \<Rightarrow> wait_result" where
  "checkForTx polls attempts delay retryAttempt =
     (case polls retryAttempt of
        Rejected \<Rightarrow>
          \<lparr> outcome = None, queries = retryAttempt + 1, waited = retryAttempt * delay \<rparr>
      | Answer result \<Rightarrow>
          if notMined result then
            if retryAttempt \<le> attempts
            then checkForTx polls attempts delay (retryAttempt + 1)
            else \<lparr> outcome = Some (Inl ConfirmationTimeout), queries = retryAttempt + 1,
                   waited = retryAttempt * delay \<rparr>
          else \<lparr> outcome = Some (Inr (the result)), queries = retryAttempt + 1,
                 waited = retryAttempt * delay \<rparr>)"
  by pat_completeness auto
termination
  by (relation "measure (\<lambda>(polls, attempts, delay, retryAttempt). Suc attempts - retryAttempt)")
     auto

declare checkForTx.simps [simp del]

definition waitForTxReceipt :: "'p env \<Rightarrow> string \<Rightarrow> nat \<Rightarrow> nat \<Rightarrow> wait_result" where
  "waitForTxReceipt web3 txHash attempts delay =
     checkForTx (getTransactionReceipt web3 txHash) attempts delay 0"

definition waitForTxReceipt_default :: "'p env \<Rightarrow> string \<Rightarrow> wait_result" where
  "waitForTxReceipt_default web3 txHash = waitForTxReceipt web3 txHash 60 1000"

text \<open>
  \<open>toWei(number, 'gwei')\<close> of web3-utils on a text, which is \<open>toWei\<close> of ethjs-unit with
  the nine decimal places of the unit:
  \<^verbatim>\<open>
    if (!arg.match(/^-?[0-9.]+$/)) throw ...          // numberToString
    var negative = ether.substring(0, 1) === '-';
    if (negative) { ether = ether.substring(1); }
    if (ether === '.') { throw ... }
    var comps = ether.split('.');
    if (comps.length > 2) { throw ... }
    var whole = comps[0], fraction = comps[1];
    if (!whole) { whole = '0'; }
    if (!fraction) { fraction = '0'; }
    if (fraction.length > baseLength) { throw ... }
    while (fraction.length < baseLength) { fraction += '0'; }
    var wei = new BN(whole).mul(base).add(new BN(fraction));
    if (negative) { wei = wei.mul(negative1); }
  \<close>
  It answers the decimal text of \<open>wei\<close>, which \<open>bigInt\<close> reads back: \<open>toWei_gwei\<close> is that
  big integer.
\<close>

definition isDecimalDigit :: "char \<Rightarrow> bool" where
  "isDecimalDigit c = (let v = (of_char c :: nat) in 48 \<le> v \<and> v \<le> 57)"

definition decimalValue :: "string \<Rightarrow> nat" where
  "decimalValue ds = foldl (\<lambda>acc c. acc * 10 + (of_char c - 48)) 0 ds"

fun split_dot :: "string \<Rightarrow> string list" where
  "split_dot [] = [[]]"
| "split_dot (c # cs) =
     (if c = CHR ''.'' then [] # split_dot cs
      else (case split_dot cs of
              [] \<Rightarrow> [[c]]
            | x # xs \<Rightarrow> (c # x) # xs))"

definition toWei_gwei :: "string \<Rightarrow> error + int" where
  "toWei_gwei number =
     (let negative = (take 1 number = ''-'');
          ether = (if negative then drop 1 number else number)
      in if ether = [] \<or> \<not> list_all (\<lambda>c. isDecimalDigit c \<or> c = CHR ''.'') ether
         then Inl InvalidAmount
         else if ether = ''.'' then Inl InvalidAmount
         else
           let comps = split_dot ether
           in if length comps > 2 then Inl InvalidAmount
              else
                let whole = (if hd comps = [] then ''0'' else hd comps);
                    fraction = (if length comps < 2 \<or> comps ! 1 = [] then ''0''
                                else comps ! 1)
                in if length fraction > 9 then Inl InvalidAmount
                   else
                     let wei = int (decimalValue whole) * 1000000000
                               + int (decimalValue
                                   (fraction @ replicate (9 - length fraction) CHR ''0''))
                     in Inr (if negative then - wei else wei))"

text \<open>
  \<open>const fee = bigInt(toWei(gasPrices.fast.toString(), 'gwei')).mul(bigInt(1e6))\<close>
\<close>

definition relayFee :: "status \<Rightarrow> error + int" where
  "relayFee resp = map_sum id (\<lambda>wei. wei * 1000000) (toWei_gwei (gasPrices_fast resp))"

text \<open>
  \<open>withdrawRelay(note, recipient, relayUrl)\<close>. The result is the bodies posted to
  \<open>/relay\<close> and the outcome: \<open>None\<close> when the wait for the receipt never settles, an
  error, or the receipt whose block number the source prints.
  \<open>netId === await web3.eth.net.getId() || netId === '*'\<close> compares without coercion:
  \<open>getId\<close> answers a number, so a \<open>netId\<close> that is a string agrees only when it is \<open>'*'\<close>.
\<close>

definition withdrawRelay ::
  "'p env \<Rightarrow> string \<Rightarrow> string \<Rightarrow> string \<Rightarrow> 'p relay_body list \<times> (error + receipt) option" where
  "withdrawRelay tornado note recipient relayUrl =
     (case relay_status tornado (relayUrl @ ''/status'') of
        None \<Rightarrow> ([], Some (Inl RelayUnreachable))
      | Some resp \<Rightarrow>
          (case net_getId tornado of
             None \<Rightarrow> ([], Some (Inl LedgerCallFailed))
           | Some chainId \<Rightarrow>
               if \<not> (netId resp = JNumber chainId \<or> netId resp = JString ''*'')
               then ([], Some (Inl NetworkMismatch))
               else
                 (case relayFee resp of
                    Inl e \<Rightarrow> ([], Some (Inl e))
                  | Inr fee \<Rightarrow>
                      (case generateProof tornado note (JString recipient)
                              (JString (relayerAddress resp)) fee 0 of
                         Inl e \<Rightarrow> ([], Some (Inl e))
                       | Inr (proof, args) \<Rightarrow>
                           let body = \<lparr> body_contract = contract_address tornado,
                                        body_proof = proof, publicSignals = args \<rparr>
                           in case relay_post tornado (relayUrl @ ''/relay'') body of
                                None \<Rightarrow> ([body], Some (Inl RelayUnreachable))
                              | Some txHash \<Rightarrow>
                                  ([body],
                                   outcome (waitForTxReceipt_default tornado txHash))))))"

section \<open>Command line\<close>

text \<open>
  The case \<open>'withdraw'\<close> of \<open>runConsole(args)\<close>, where \<open>args[0] = 'withdraw'\<close>:
  \<^verbatim>\<open>
    if (args.length >= 3 && args.length <= 4 && /^0x[0-9a-fA-F]{124}$/.test(args[1])
        && /^0x[0-9a-fA-F]{40}$/.test(args[2])) {
      await init() ...
      if (args[3]) { await withdrawRelay(args[1], args[2], args[3]) }
      else { await withdraw(args[1], args[2]) }
    } else { printHelp(1) }
  \<close>
  \<open>init\<close> and the printing of balances are left out.
\<close>

definition runConsole_withdraw ::
  "'p env \<Rightarrow> string list \<Rightarrow> 'p relay_body list \<times> (error + receipt option) option" where
  "runConsole_withdraw tornado args =
     (if 3 \<le> length args \<and> length args \<le> 4 \<and> noteFormat (args ! 1)
         \<and> addressFormat (args ! 2)
      then (if length args = 4 \<and> args ! 3 \<noteq> []
            then (case withdrawRelay tornado (args ! 1) (args ! 2) (args ! 3) of
                    (posted, res) \<Rightarrow> (posted, map_option (map_sum id Some) res))
            else ([], Some (map_sum id (\<lambda>u. None) (withdraw tornado (args ! 1) (args ! 2)))))
      else ([], Some (Inl Usage)))"

text \<open>
  The browser's entry, \<open>window.withdraw\<close>, hands the text of the prompt to \<open>withdraw\<close> as
  it is:
  \<^verbatim>\<open>
    const note = prompt('Enter the note to withdraw')
    const recipient = (await web3.eth.getAccounts())[0]
    await withdraw(note, recipient)
  \<close>
\<close>

definition window_withdraw :: "'p env \<Rightarrow> string \<Rightarrow> string \<Rightarrow> error + unit" where
  "window_withdraw tornado note account = withdraw tornado note account"

section \<open>An example session\<close>

text \<open>
  A note of 124 digits, the recipient of the usage text of \<open>printHelp\<close>, the relay
  address and the transaction of the README's log, and a ledger with two deposits,
  delivered out of order.
  With \<open>length\<close> for the hash of the codec, the commitment of every note is 62 and its
  nullifier hash 31: the second deposit of the ledger is the note's.
\<close>

definition example_note :: string where
  "example_note =
     ''0x1941fa999e2b4bfeec3ce53c2440c3bc991b1b84c9bb650ea19f8331baf621001e696487e2a2ee54541fa12f49498d71e24d00b1731a8ccd4f5f5126f3d9''"

definition example_recipient :: string where
  "example_recipient = ''0xee6249BA80596A4890D1BD84dbf5E4322eA4E7f0''"

definition example_status :: status where
  "example_status =
     \<lparr> relayerAddress = ''0x6A31736e7490AbE5D5676be059DFf064AB4aC754'',
       netId = JNumber 1, gasPrices_fast = ''5'' \<rparr>"

definition example_env :: "unit env" where
  "example_env =
     \<lparr> pedersenHash = length,
       hashLeftRight = (\<lambda>l r. 2 * l + 3 * r + 1),
       zero_value = 0,
       getPastEvents = Some [\<lparr>leafIndex = 1, ev_commitment = 62\<rparr>,
                             \<lparr>leafIndex = 0, ev_commitment = 17\<rparr>],
       isKnownRoot = (\<lambda>r. Some True),
       isSpent = (\<lambda>h. Some False),
       send_withdraw = (\<lambda>p a. Some ()),
       contract_address = ''0x5f0c5a6F699772b0E1d78ac00Af40174bFef8623'',
       net_getId = Some 1,
       getTransactionReceipt =
         (\<lambda>h k. Answer (if k < 3 then None else Some \<lparr>blockNumber = Some 17036120\<rparr>)),
       genWitnessAndProve = (\<lambda>i. Some ()),
       relay_status = (\<lambda>u. Some example_status),
       relay_post =
         (\<lambda>u b. Some ''0xcb21ae8cad723818c6bc7273e83e00c8393fcdbe74802ce5d562acad691a2a7b'') \<rparr>"

section \<open>Properties of the buffer conversions\<close>

lemma and_255_nat: "(r::nat) AND 255 = r mod 256"
proof -
  have "r AND mask 8 = r mod 2 ^ 8"
    by (simp only: take_bit_eq_mask [symmetric] take_bit_eq_mod)
  then show ?thesis by (simp add: mask_eq_exp_minus_1)
qed

lemma drop_bit_8_nat: "drop_bit 8 (r::nat) = r div 256"
  by (simp add: drop_bit_eq_div)

lemma leInt2Buff_loop_spec:
  assumes "ofs \<le> length buff"
    and "\<forall>i. ofs \<le> i \<and> i < length buff \<longrightarrow> buff ! i = 0"
  shows "leInt2Buff_loop r ofs buff =
    (r div 256 ^ (length buff - ofs),
     take ofs buff @ map (\<lambda>i. of_nat (r div 256 ^ i mod 256)) [0..<length buff - ofs])"
  using assms
proof (induction r ofs buff rule: leInt2Buff_loop.induct)
  case (1 r ofs buff)
  let ?n = "length buff"
  show ?case
  proof (cases "r > 0 \<and> ofs < ?n")
    case True
    let ?b = "buff[ofs := of_nat (r AND 255)]"
    have len: "length ?b = ?n" by simp
    have zeros: "\<forall>i. ofs + 1 \<le> i \<and> i < length ?b \<longrightarrow> ?b ! i = 0"
      using "1.prems"(2) by simp
    have ih: "leInt2Buff_loop (drop_bit 8 r) (ofs + 1) ?b =
        (drop_bit 8 r div 256 ^ (length ?b - (ofs + 1)),
         take (ofs + 1) ?b @
         map (\<lambda>i. of_nat (drop_bit 8 r div 256 ^ i mod 256)) [0..<length ?b - (ofs + 1)])"
      using "1.IH" [OF True _ zeros] True by simp
    obtain k where k: "?n - ofs = Suc k" using True by (cases "?n - ofs") auto
    then have k': "?n - (ofs + 1) = k" by simp
    have tk: "take (ofs + 1) ?b = take ofs buff @ [of_nat (r mod 256)]"
      using True by (simp add: take_Suc_conv_app_nth and_255_nat)
    have dv: "r div 256 div 256 ^ i = r div 256 ^ Suc i" for i
      by (simp add: div_mult2_eq)
    have mp: "map (\<lambda>i. (of_nat (r div 256 ^ i mod 256) :: byte)) [0..<Suc k] =
        of_nat (r mod 256) # map (\<lambda>i. of_nat (r div 256 ^ Suc i mod 256)) [0..<k]"
      by (simp only: upt_conv_Cons [of 0 "Suc k"] map_Suc_upt [symmetric] list.map map_map o_def)
         simp
    have "leInt2Buff_loop r ofs buff = leInt2Buff_loop (drop_bit 8 r) (ofs + 1) ?b"
      using True by (subst leInt2Buff_loop.simps) simp
    also note ih
    finally show ?thesis
      by (simp only: len k k' tk mp drop_bit_8_nat dv) simp
  next
    case False
    have eq: "leInt2Buff_loop r ofs buff = (r, buff)"
      using False by (subst leInt2Buff_loop.simps) auto
    show ?thesis
    proof (cases "ofs < ?n")
      case True
      with False have r0: "r = 0" by simp
      have "buff = take ofs buff @ map (\<lambda>i. 0) [0..<?n - ofs]"
      proof (rule nth_equalityI)
        show "length buff = length (take ofs buff @ map (\<lambda>i. 0) [0..<?n - ofs])"
          using "1.prems"(1) by simp
      next
        fix i assume "i < length buff"
        then show "buff ! i = (take ofs buff @ map (\<lambda>i. 0) [0..<?n - ofs]) ! i"
          using "1.prems" by (cases "i < ofs") (simp_all add: nth_append)
      qed
      then show ?thesis using eq r0 by simp
    next
      case False
      with "1.prems"(1) have "ofs = ?n" by simp
      then show ?thesis using eq by simp
    qed
  qed
qed

lemma leInt2Buff_loop_alloc:
  "leInt2Buff_loop n 0 (replicate len 0) = (n div 256 ^ len, leBytes n len)"
  using leInt2Buff_loop_spec [of 0 "replicate len 0" n] by (simp add: leBytes_def)

lemma leInt2Buff_eq:
  "leInt2Buff n len = (if n < 256 ^ len then Inr (leBytes n len) else Inl NumberDoesNotFit)"
  by (simp add: leInt2Buff_def leInt2Buff_loop_alloc div_greater_zero_iff)

lemma length_leBytes [simp]: "length (leBytes n k) = k"
  by (simp add: leBytes_def)


lemma push_bit_bytes: "push_bit (i * 8) (x::nat) = 256 ^ i * x"
proof -
  have "(2::nat) ^ (i * 8) = 256 ^ i"
    using power_mult [of "2::nat" 8 i] by (simp add: mult.commute)
  then show ?thesis by (simp add: push_bit_eq_mult)
qed

lemma leBuff2int_loop_spec:
  "i \<le> length buff \<Longrightarrow>
     leBuff2int_loop buff i res = res + 256 ^ i * leValue (drop i buff)"
proof (induction buff i res rule: leBuff2int_loop.induct)
  case (1 buff i res)
  show ?case
  proof (cases "i < length buff")
    case True
    have d: "drop i buff = buff ! i # drop (Suc i) buff"
      using True by (simp add: Cons_nth_drop_Suc)
    have "leBuff2int_loop buff i res =
        leBuff2int_loop buff (i + 1) (res + push_bit (i * 8) (unat (buff ! i)))"
      using True by (subst leBuff2int_loop.simps) simp
    also have "\<dots> = res + push_bit (i * 8) (unat (buff ! i)) +
        256 ^ (i + 1) * leValue (drop (i + 1) buff)"
      using "1.IH" [OF True] True by simp
    finally show ?thesis
      by (simp add: d push_bit_bytes algebra_simps)
  next
    case False
    with "1.prems" have "i = length buff" by simp
    then show ?thesis by (subst leBuff2int_loop.simps) simp
  qed
qed

lemma leBuff2int_eq: "leBuff2int buff = leValue buff"
  by (simp add: leBuff2int_def leBuff2int_loop_spec)

lemma leBytes_Suc:
  "leBytes n (Suc k) = of_nat (n mod 256) # leBytes (n div 256) k"
proof -
  have "map (\<lambda>i. (of_nat (n div 256 ^ i mod 256) :: byte)) [0..<Suc k] =
      of_nat (n div 256 ^ 0 mod 256) # map (\<lambda>i. of_nat (n div 256 ^ Suc i mod 256)) [0..<k]"
    by (simp only: upt_conv_Cons [of 0 "Suc k"] map_Suc_upt [symmetric] list.map map_map o_def)
  then show ?thesis by (simp add: leBytes_def div_mult2_eq)
qed

lemma leValue_leBytes: "leValue (leBytes n k) = n mod 256 ^ k"
proof (induction k arbitrary: n)
  case 0
  show ?case by (simp add: leBytes_def)
next
  case (Suc k)
  have "unat (of_nat (n mod 256) :: byte) = n mod 256"
    by (simp add: unat_of_nat)
  then show ?case
    by (simp add: leBytes_Suc Suc.IH mod_mult2_eq)
qed

lemma leValue_bound: "leValue bs < 256 ^ length bs"
proof (induction bs)
  case Nil
  show ?case by simp
next
  case (Cons b bs)
  have "unat b < 256" using unsigned_less [of b] by simp
  with Cons show ?case by simp
qed

lemma leBytes_leValue: "leBytes (leValue bs) (length bs) = bs"
proof (induction bs)
  case Nil
  show ?case by (simp add: leBytes_def)
next
  case (Cons b bs)
  have b: "unat b < 256" using unsigned_less [of b] by simp
  then have "(unat b + 256 * leValue bs) mod 256 = unat b"
    and "(unat b + 256 * leValue bs) div 256 = leValue bs"
    by simp_all
  then show ?case by (simp add: leBytes_Suc Cons.IH)
qed

lemma pow_256_31: "(256::nat) ^ 31 = 2 ^ 248"
proof -
  have "(256::nat) ^ 31 = (2 ^ 8) ^ 31" by simp
  also have "\<dots> = 2 ^ (8 * 31)" by (simp only: power_mult)
  finally show ?thesis by simp
qed


section \<open>Properties of hexadecimal text\<close>

lemma hexVal_hexDigit: "d < 16 \<Longrightarrow> hexVal (hexDigit d) = Some d"
  by (simp add: hexVal_def hexDigit_def Let_def)

lemma byte_nibbles: "(of_nat (16 * (unat b div 16) + unat b mod 16) :: byte) = b"
  by simp

lemma toString_hex_Cons:
  "toString_hex (b # bs) = hexDigit (unat b div 16) # hexDigit (unat b mod 16) # toString_hex bs"
  by (simp add: toString_hex_def)

lemma unat_byte_div: "unat (b::byte) div 16 < 16"
proof -
  have "unat b < 2 ^ LENGTH(8)" by (rule unsigned_less)
  then show ?thesis by simp
qed

lemma Buffer_from_hex_toString_hex: "Buffer_from_hex (toString_hex bs) = bs"
proof (induction bs)
  case Nil
  show ?case by (simp add: toString_hex_def)
next
  case (Cons b bs)
  then show ?case
    by (simp add: toString_hex_Cons hexVal_hexDigit unat_byte_div)
qed

lemma length_toString_hex: "length (toString_hex bs) = 2 * length bs"
  by (induction bs) (simp_all add: toString_hex_Cons, simp add: toString_hex_def)

lemma hex_toString_hex: "list_all (\<lambda>c. hexVal c \<noteq> None) (toString_hex bs)"
  by (induction bs) (simp_all add: toString_hex_Cons hexVal_hexDigit unat_byte_div, simp add: toString_hex_def)

lemma length_Buffer_from_hex:
  "list_all (\<lambda>c. hexVal c \<noteq> None) s \<Longrightarrow> length (Buffer_from_hex s) = length s div 2"
  by (induction s rule: Buffer_from_hex.induct) auto

lemma toString16_small: "n < 16 \<Longrightarrow> toString16 n = [hexDigit n]"
  by (subst toString16.simps) simp

lemma toString16_big:
  "\<not> n < 16 \<Longrightarrow> toString16 n = toString16 (n div 16) @ [hexDigit (n mod 16)]"
  by (subst toString16.simps) simp

lemma length_toString16_gt: "16 ^ k \<le> n \<Longrightarrow> k < length (toString16 n)"
proof (induction n arbitrary: k rule: toString16.induct)
  case (1 n)
  show ?case
  proof (cases "n < 16")
    case True
    with "1.prems" have "(16::nat) ^ k < 16 ^ 1" by simp
    then have "k < 1" by (rule power_less_imp_less_exp [rotated]) simp
    then have "k = 0" by simp
    then show ?thesis by (simp add: toString16_small True)
  next
    case False
    show ?thesis
    proof (cases k)
      case 0
      then show ?thesis by (simp add: toString16_big False)
    next
      case (Suc j)
      with "1.prems" have "16 ^ j \<le> n div 16" by simp
      from "1.IH" [OF False this] show ?thesis
        by (simp add: toString16_big False Suc)
    qed
  qed
qed

lemma length_toString16_le: "n < 16 ^ k \<Longrightarrow> 0 < k \<Longrightarrow> length (toString16 n) \<le> k"
proof (induction n arbitrary: k rule: toString16.induct)
  case (1 n)
  show ?case
  proof (cases "n < 16")
    case True
    with "1.prems" show ?thesis by (simp add: toString16_small)
  next
    case False
    obtain j where k: "k = Suc j" using "1.prems"(2) by (cases k) auto
    have "j \<noteq> 0" using False "1.prems"(1) k by (cases j) auto
    moreover have "n div 16 < 16 ^ j" using "1.prems"(1) k
      by (simp add: less_mult_imp_div_less mult.commute)
    ultimately have "length (toString16 (n div 16)) \<le> j"
      using "1.IH" [OF False] by simp
    then show ?thesis by (simp add: toString16_big False k)
  qed
qed

lemma toHex_BigInt:
  "toHex (BigInt n) len =
     ''0x'' @ replicate (2 * len - length (toString16 n)) CHR ''0'' @ toString16 n"
  by (simp add: toHex_def padStart_def Let_def mult.commute)

lemma toHex_Buffer:
  "toHex (Buffer b) len =
     ''0x'' @ replicate (2 * len - 2 * length b) CHR ''0'' @ toString_hex b"
  by (simp add: toHex_def padStart_def Let_def mult.commute length_toString_hex)

lemma encodeNote_62: "length pre = 62 \<Longrightarrow> encodeNote pre = ''0x'' @ toString_hex pre"
  by (simp add: encodeNote_def toHex_Buffer)

lemma noteFormat_encodeNote: "length pre = 62 \<Longrightarrow> noteFormat (encodeNote pre)"
  using hex_toString_hex [of pre]
  by (simp add: encodeNote_62 noteFormat_def hexLiteral_def length_toString_hex)

lemma decodeNote_encodeNote:
  "length nb = 31 \<Longrightarrow> length sb = 31 \<Longrightarrow>
     decodeNote H (encodeNote (nb @ sb)) = createDeposit H (leValue nb) (leValue sb)"
  by (simp add: decodeNote_def encodeNote_62 Buffer_from_hex_toString_hex leBuff2int_eq)

lemma createDeposit_leValue:
  "length nb = 31 \<Longrightarrow> length sb = 31 \<Longrightarrow>
     createDeposit H (leValue nb) (leValue sb) =
       Inr \<lparr> nullifier = leValue nb, secret = leValue sb, preimage = nb @ sb,
             commitment = H (nb @ sb), nullifierHash = H nb \<rparr>"
  using leValue_bound [of nb] leValue_bound [of sb] leBytes_leValue [of nb] leBytes_leValue [of sb]
  by (simp add: createDeposit_def leInt2Buff_eq)

lemma noteFormat_bytes:
  assumes "noteFormat note"
  shows "length (Buffer_from_hex (drop 2 note)) = 62"
  using assms length_Buffer_from_hex [of "drop 2 note"]
  by (simp add: noteFormat_def hexLiteral_def)

lemma decodeNote_format:
  assumes "noteFormat note"
  shows "\<exists>nb sb. length nb = 31 \<and> length sb = 31
     \<and> Buffer_from_hex (drop 2 note) = nb @ sb
     \<and> decodeNote H note = createDeposit H (leValue nb) (leValue sb)
     \<and> decodeNote H note =
         Inr \<lparr> nullifier = leValue nb, secret = leValue sb, preimage = nb @ sb,
               commitment = H (nb @ sb), nullifierHash = H nb \<rparr>"
proof -
  let ?buf = "Buffer_from_hex (drop 2 note)"
  let ?nb = "take 31 ?buf" and ?sb = "take 31 (drop 31 ?buf)"
  have len: "length ?buf = 62" using assms by (rule noteFormat_bytes)
  then have l1: "length ?nb = 31" and l2: "length ?sb = 31" by simp_all
  have "?sb = drop 31 ?buf" using len by simp
  then have split: "?buf = ?nb @ ?sb" by simp
  have dec: "decodeNote H note = createDeposit H (leValue ?nb) (leValue ?sb)"
    by (simp add: decodeNote_def leBuff2int_eq Let_def)
  from l1 l2 split dec createDeposit_leValue [OF l1 l2, of H] show ?thesis
    by (intro exI [of _ ?nb] exI [of _ ?sb]) simp
qed

lemma leBytes_0: "leBytes 0 k = replicate k 0"
  by (simp add: leBytes_def map_replicate_const)

section \<open>The claims on the codec\<close>

text \<open>
  C1. For scalars that fit 31 bytes, \<open>createDeposit\<close> succeeds, and its deposit holds the
  two scalars, the 62-byte preimage \<open>leBytes(nullifier, 31) ++ leBytes(secret, 31)\<close>, the
  hash of the preimage as commitment and the hash of \<open>leBytes(nullifier, 31)\<close> as
  nullifier hash. The deposit is a function of the hash and the two scalars alone: two
  calls with equal arguments give equal deposits.
\<close>

theorem createDeposit_spec:
  assumes "nul < 2 ^ 248" and "sec < 2 ^ 248"
  shows "createDeposit H nul sec =
      Inr \<lparr> nullifier = nul, secret = sec, preimage = leBytes nul 31 @ leBytes sec 31,
            commitment = H (leBytes nul 31 @ leBytes sec 31),
            nullifierHash = H (leBytes nul 31) \<rparr>
    \<and> length (leBytes nul 31 @ leBytes sec 31) = 62"
  using assms by (simp add: createDeposit_def leInt2Buff_eq pow_256_31)

theorem createDeposit_spec_witness:
  "(5::nat) < 2 ^ 248 \<and> (7::nat) < 2 ^ 248
   \<and> createDeposit length 5 7 =
      Inr \<lparr> nullifier = 5, secret = 7, preimage = leBytes 5 31 @ leBytes 7 31,
            commitment = 62, nullifierHash = 31 \<rparr>"
  using createDeposit_spec [of 5 7 length] by simp


lemma toHex_example: "toHex (BigInt 256) 1 = ''0x100''"
  by code_simp



text \<open>
  C2. Round trip of the note: for scalars that fit 31 bytes, the note of the deposit's
  preimage is \<open>0x\<close> and 124 hexadecimal digits, and decoding it gives the deposit back,
  so in particular the same commitment.
\<close>

theorem note_roundtrip:
  assumes "nul < 2 ^ 248" and "sec < 2 ^ 248"
  shows "\<exists>d. createDeposit H nul sec = Inr d
     \<and> length (encodeNote (preimage d)) = 2 + 124
     \<and> noteFormat (encodeNote (preimage d))
     \<and> decodeNote H (encodeNote (preimage d)) = Inr d
     \<and> map_sum id commitment (decodeNote H (encodeNote (preimage d))) =
         map_sum id commitment (createDeposit H nul sec)"
proof -
  let ?nb = "leBytes nul 31" and ?sb = "leBytes sec 31"
  let ?d = "\<lparr> nullifier = nul, secret = sec, preimage = ?nb @ ?sb,
              commitment = H (?nb @ ?sb), nullifierHash = H ?nb \<rparr>"
  have cd: "createDeposit H nul sec = Inr ?d"
    using assms by (simp add: createDeposit_def leInt2Buff_eq pow_256_31)
  have v: "leValue ?nb = nul" "leValue ?sb = sec"
    using assms by (simp_all add: leValue_leBytes pow_256_31)
  have dn: "decodeNote H (encodeNote (?nb @ ?sb)) = Inr ?d"
    using decodeNote_encodeNote [of ?nb ?sb H] cd by (simp add: v)
  have "length (encodeNote (?nb @ ?sb)) = 2 + 124"
    by (simp add: encodeNote_62 length_toString_hex)
  moreover have "noteFormat (encodeNote (?nb @ ?sb))"
    by (rule noteFormat_encodeNote) simp
  ultimately show ?thesis using cd dn by simp
qed

theorem note_roundtrip_witness:
  "(5::nat) < 2 ^ 248 \<and> (7::nat) < 2 ^ 248
   \<and> (\<exists>d. createDeposit length 5 7 = Inr d
     \<and> length (encodeNote (preimage d)) = 2 + 124
     \<and> noteFormat (encodeNote (preimage d))
     \<and> decodeNote length (encodeNote (preimage d)) = Inr d
     \<and> map_sum id commitment (decodeNote length (encodeNote (preimage d))) =
         map_sum id commitment (createDeposit length 5 7))"
  using note_roundtrip [of 5 7 length] by simp

lemma example_note_format: "noteFormat example_note"
  by (simp add: example_note_def noteFormat_def hexLiteral_def hexVal_def)

text \<open>
  C8, as the source has it. The format of the note is checked by \<open>runConsole\<close>, not by the
  decoding in \<open>generateProof\<close>: on the command line a note that does not match
  \<open>^0x[0-9a-fA-F]{124}$\<close> ends in the usage text and exit status 1 before anything is
  decoded; a note that matches is 62 bytes, which the decoding splits into two
  little-endian scalars of 31 bytes and hands to \<open>createDeposit\<close>.
\<close>

theorem runConsole_rejects_malformed_note:
  "(\<not> noteFormat (args ! 1) \<longrightarrow> runConsole_withdraw tornado args = ([], Some (Inl Usage)))
   \<and> (noteFormat note \<longrightarrow>
        (\<exists>nb sb. length nb = 31 \<and> length sb = 31
           \<and> Buffer_from_hex (drop 2 note) = nb @ sb
           \<and> decodeNote H note = createDeposit H (leValue nb) (leValue sb)
           \<and> decodeNote H note =
               Inr \<lparr> nullifier = leValue nb, secret = leValue sb, preimage = nb @ sb,
                     commitment = H (nb @ sb), nullifierHash = H nb \<rparr>))"
  using decodeNote_format [of "note" H] by (simp add: runConsole_withdraw_def)

theorem runConsole_rejects_malformed_note_witness:
  "runConsole_withdraw example_env [''withdraw'', ''0x'', example_recipient] =
     ([], Some (Inl Usage))
   \<and> (\<exists>nb sb. length nb = 31 \<and> length sb = 31
        \<and> Buffer_from_hex (drop 2 example_note) = nb @ sb
        \<and> decodeNote length example_note = createDeposit length (leValue nb) (leValue sb)
        \<and> decodeNote length example_note =
            Inr \<lparr> nullifier = leValue nb, secret = leValue sb, preimage = nb @ sb,
                  commitment = length (nb @ sb), nullifierHash = length nb \<rparr>)"
proof -
  have a: "\<not> noteFormat ([''withdraw'', ''0x'', example_recipient] ! 1)"
    by (simp add: noteFormat_def hexLiteral_def)
  from runConsole_rejects_malformed_note
    [of "[''withdraw'', ''0x'', example_recipient]" example_env example_note length]
    a example_note_format
  show ?thesis by blast
qed

text \<open>
  The decoding alone, as the browser's \<open>window.withdraw\<close> reaches it, does not fail on a
  text that is no note: \<open>0x\<close> decodes to the deposit of the scalars 0 and 0, and the
  withdrawal goes on to the ledger (here, to a ledger whose events cannot be read).
\<close>

theorem decodeNote_unguarded_counterexample:
  "\<not> noteFormat ''0x''
   \<and> decodeNote (\<lambda>b. 0) ''0x'' =
       Inr \<lparr> nullifier = 0, secret = 0, preimage = replicate 62 0, commitment = 0,
             nullifierHash = 0 \<rparr>
   \<and> window_withdraw (example_env \<lparr> getPastEvents := None \<rparr>) ''0x'' example_recipient =
       Inl LedgerCallFailed"
  by (simp add: noteFormat_def hexLiteral_def decodeNote_def leBuff2int_eq createDeposit_def
      leInt2Buff_eq leBytes_0 replicate_add [symmetric] window_withdraw_def withdraw_def
      generateProof_def generateMerkleProof_def example_env_def)


section \<open>Properties of the sorted events\<close>

lemma sorted_sortEvents: "sorted (map leafIndex (sortEvents events))"
  by (simp add: sortEvents_def)

lemma mset_sortEvents: "mset (sortEvents events) = mset events"
  by (simp add: sortEvents_def)

lemma filter_same_key:
  assumes "\<forall>e\<in>set xs. leafIndex e = leafIndex k \<longrightarrow> e = k"
  shows "filter (\<lambda>x. leafIndex k = leafIndex x) xs = replicate (count (mset xs) k) k"
  using assms by (induction xs) auto

lemma filter_sort_key_flip:
  "filter (\<lambda>x. k = f x) (sort_key f xs) = filter (\<lambda>x. k = f x) xs"
proof -
  have "(\<lambda>x. k = f x) = (\<lambda>x. f x = k)" by auto
  then show ?thesis by (simp only: sort_key_stable)
qed

lemma event_eqI: "leafIndex e = leafIndex k \<Longrightarrow> ev_commitment e = ev_commitment k \<Longrightarrow> e = (k::event)"
  by simp

lemma sortEvents_permutation:
  assumes perm: "mset events' = mset events"
    and fn: "\<forall>e\<in>set events. \<forall>e'\<in>set events.
               leafIndex e = leafIndex e' \<longrightarrow> ev_commitment e = ev_commitment e'"
  shows "sortEvents events' = sortEvents events"
proof -
  have same: "e = k" if "e \<in> set events" "k \<in> set events" "leafIndex e = leafIndex k" for e k
  proof (rule event_eqI)
    show "leafIndex e = leafIndex k" by (rule that(3))
    show "ev_commitment e = ev_commitment k" using fn that by blast
  qed
  have sets: "set events' = set events" using perm by (rule mset_eq_setD)
  have "sort_key leafIndex events = sort_key leafIndex events'"
  proof (rule properties_for_sort_key)
    show "mset (sort_key leafIndex events') = mset events" using perm by simp
    show "sorted (map leafIndex (sort_key leafIndex events'))" by simp
  next
    fix k assume "k \<in> set (sort_key leafIndex events')"
    then have k: "k \<in> set events" using sets by simp
    have a: "\<forall>e\<in>set events'. leafIndex e = leafIndex k \<longrightarrow> e = k"
      using same k sets by blast
    have b: "\<forall>e\<in>set events. leafIndex e = leafIndex k \<longrightarrow> e = k"
      using same k by blast
    have "filter (\<lambda>x. leafIndex k = leafIndex x) (sort_key leafIndex events') =
        filter (\<lambda>x. leafIndex k = leafIndex x) events'"
      by (rule filter_sort_key_flip)
    also have "\<dots> = replicate (count (mset events') k) k"
      using a by (rule filter_same_key)
    also have "\<dots> = replicate (count (mset events) k) k" by (simp only: perm)
    also have "\<dots> = filter (\<lambda>x. leafIndex k = leafIndex x) events"
      using b by (rule filter_same_key [symmetric])
    finally show "filter (\<lambda>x. leafIndex k = leafIndex x) (sort_key leafIndex events') =
        filter (\<lambda>x. leafIndex k = leafIndex x) events" .
  qed
  then show ?thesis by (simp only: sortEvents_def)
qed

text \<open>
  C4. The ledger gives every \<open>leafIndex\<close> to one commitment, so in an event list that
  it returns, events of equal \<open>leafIndex\<close> have equal commitments, also when an event is
  delivered twice. Whatever the order of delivery, the leaves handed to the tree are
  the commitments of the events sorted ascending by \<open>leafIndex\<close>, each event kept, and
  reordering such a list does not change the leaves.
\<close>

theorem leavesOf_sorted:
  "leavesOf events = map ev_commitment (sortEvents events)
   \<and> sorted (map leafIndex (sortEvents events))
   \<and> mset (sortEvents events) = mset events
   \<and> (mset events' = mset events
        \<and> (\<forall>e\<in>set events. \<forall>e'\<in>set events.
              leafIndex e = leafIndex e' \<longrightarrow> ev_commitment e = ev_commitment e')
       \<longrightarrow> leavesOf events' = leavesOf events)"
proof -
  have "leavesOf events' = leavesOf events"
    if "mset events' = mset events"
      and "\<forall>e\<in>set events. \<forall>e'\<in>set events.
              leafIndex e = leafIndex e' \<longrightarrow> ev_commitment e = ev_commitment e'"
    using sortEvents_permutation [OF that] by (simp only: leavesOf_def)
  then show ?thesis
    by (simp only: leavesOf_def sorted_sortEvents mset_sortEvents) blast
qed

theorem leavesOf_sorted_witness:
  "leavesOf [\<lparr>leafIndex = 2, ev_commitment = 30\<rparr>, \<lparr>leafIndex = 0, ev_commitment = 10\<rparr>,
             \<lparr>leafIndex = 1, ev_commitment = 20\<rparr>, \<lparr>leafIndex = 0, ev_commitment = 10\<rparr>] =
     [10, 10, 20, 30]
   \<and> leavesOf [\<lparr>leafIndex = 0, ev_commitment = 10\<rparr>, \<lparr>leafIndex = 1, ev_commitment = 20\<rparr>,
               \<lparr>leafIndex = 0, ev_commitment = 10\<rparr>, \<lparr>leafIndex = 2, ev_commitment = 30\<rparr>] =
     leavesOf [\<lparr>leafIndex = 2, ev_commitment = 30\<rparr>, \<lparr>leafIndex = 0, ev_commitment = 10\<rparr>,
               \<lparr>leafIndex = 1, ev_commitment = 20\<rparr>, \<lparr>leafIndex = 0, ev_commitment = 10\<rparr>]"
  using leavesOf_sorted
    [of "[\<lparr>leafIndex = 2, ev_commitment = 30\<rparr>, \<lparr>leafIndex = 0, ev_commitment = 10\<rparr>,
          \<lparr>leafIndex = 1, ev_commitment = 20\<rparr>, \<lparr>leafIndex = 0, ev_commitment = 10\<rparr>]"
        "[\<lparr>leafIndex = 0, ev_commitment = 10\<rparr>, \<lparr>leafIndex = 1, ev_commitment = 20\<rparr>,
          \<lparr>leafIndex = 0, ev_commitment = 10\<rparr>, \<lparr>leafIndex = 2, ev_commitment = 30\<rparr>]"]
  by (simp add: sortEvents_def)

section \<open>Properties of the tree\<close>

lemma length_next_level: "length (next_level H xs) = length xs div 2"
  by (induction H xs rule: next_level.induct) simp_all

lemma nth_next_level:
  "j < length xs div 2 \<Longrightarrow> next_level H xs ! j = H (xs ! (2 * j)) (xs ! (2 * j + 1))"
proof (induction H xs arbitrary: j rule: next_level.induct)
  case (1 H l r rest)
  then show ?case by (cases j) simp_all
qed simp_all

lemma div_pow2_Suc: "(a::nat) div 2 ^ l div 2 = a div 2 ^ Suc l"
proof -
  have "a div 2 ^ l div 2 = a div (2 ^ l * 2)" by (simp only: div_mult2_eq)
  then show ?thesis by (simp add: mult.commute)
qed

lemma length_level: "length (level H base l) = length base div 2 ^ l"
proof (induction l)
  case 0
  show ?case by simp
next
  case (Suc l)
  have "length (level H base (Suc l)) = length (level H base l) div 2"
    by (simp add: length_next_level)
  then show ?case by (simp only: Suc.IH div_pow2_Suc)
qed

lemma length_padded: "length leaves \<le> 2 ^ h \<Longrightarrow> length (padded z h leaves) = 2 ^ h"
  by (simp add: padded_def)

lemma nth_padded: "i < length leaves \<Longrightarrow> padded z h leaves ! i = leaves ! i"
  by (simp add: padded_def nth_append)

lemma level_step:
  assumes len: "length base = 2 ^ h" and l: "l < h" and k: "k < 2 ^ (h - l)"
  shows "level H base (Suc l) ! (k div 2) =
     (if k mod 2 = 0 then H (level H base l ! k) (level H base l ! sibling k)
      else H (level H base l ! sibling k) (level H base l ! k))"
proof -
  have ll: "length (level H base l) = 2 ^ (h - l)"
    using l by (simp add: length_level len power_diff)
  obtain m where m: "h - l = Suc m" using l by (cases "h - l") auto
  have "k div 2 < length (level H base l) div 2"
    using k by (simp add: ll m less_mult_imp_div_less mult.commute)
  then have n: "level H base (Suc l) ! (k div 2) =
      H (level H base l ! (2 * (k div 2))) (level H base l ! (2 * (k div 2) + 1))"
    by (simp add: nth_next_level)
  show ?thesis
  proof (cases "even k")
    case True
    then have "2 * (k div 2) = k" "sibling k = k + 1" "k mod 2 = 0"
      by (auto simp: sibling_def)
    with n show ?thesis by simp
  next
    case False
    then have "2 * (k div 2) = k - 1" "sibling k = k - 1" "2 * (k div 2) + 1 = k" "k mod 2 = 1"
      by (auto simp: sibling_def elim!: oddE simp: mod2_eq_if)
    with n show ?thesis by simp
  qed
qed

lemma recombine_levels:
  assumes len: "length base = 2 ^ h" and i: "i < 2 ^ h"
  shows "l + n = h \<Longrightarrow>
     recombine H (level H base l ! (i div 2 ^ l))
       (map (\<lambda>m. level H base m ! sibling (i div 2 ^ m)) [l..<h])
       (map (\<lambda>m. i div 2 ^ m mod 2) [l..<h]) = level H base h ! 0"
proof (induction n arbitrary: l)
  case 0
  then have "l = h" by simp
  then show ?case using i by simp
next
  case (Suc n)
  then have l: "l < h" and nx: "Suc l + n = h" by simp_all
  have k: "i div 2 ^ l < 2 ^ (h - l)"
    using i l by (simp add: less_mult_imp_div_less power_add [symmetric])
  have up: "[l..<h] = l # [Suc l..<h]" using l by (simp add: upt_conv_Cons)
  have d: "i div 2 ^ l div 2 = i div 2 ^ Suc l" by (rule div_pow2_Suc)
  show ?case
    using Suc.IH [OF nx] level_step [OF len l k, of H]
    by (simp only: up list.map recombine.simps d split: if_splits)
qed


lemma tree_levels_Construct:
  "l \<le> h \<Longrightarrow> tree_levels (Construct H z h leaves) ! l = level H (padded z h leaves) l"
  by (simp add: Construct_def del: upt_Suc)

lemma Root_Construct: "Root (Construct H z h leaves) = level H (padded z h leaves) h ! 0"
proof -
  have "tree_height (Construct H z h leaves) = h" by (simp add: Construct_def)
  then show ?thesis using tree_levels_Construct [of h h H z leaves] by (simp only: Root_def)
qed

lemma Path_Construct:
  assumes "i < length leaves"
  shows "Path (Construct H z h leaves) i =
     Inr \<lparr> path_elements =
             map (\<lambda>l. level H (padded z h leaves) l ! sibling (i div 2 ^ l)) [0..<h],
           path_index = map (\<lambda>l. i div 2 ^ l mod 2) [0..<h] \<rparr>"
proof -
  have "map (\<lambda>l. tree_levels (Construct H z h leaves) ! l ! sibling (i div 2 ^ l)) [0..<h] =
      map (\<lambda>l. level H (padded z h leaves) l ! sibling (i div 2 ^ l)) [0..<h]"
    by (rule map_cong) (simp_all add: tree_levels_Construct)
  moreover have "tree_leaves (Construct H z h leaves) = leaves"
    and "tree_height (Construct H z h leaves) = h"
    by (simp_all add: Construct_def)
  ultimately show ?thesis using assms by (simp add: Path_def)
qed

lemma path_reproduces_root_height:
  assumes "length leaves \<le> 2 ^ h" and "i < length leaves"
  shows "\<exists>p. Path (Construct H z h leaves) i = Inr p
     \<and> length (path_elements p) = h \<and> length (path_index p) = h
     \<and> recombine H (leaves ! i) (path_elements p) (path_index p) =
         Root (Construct H z h leaves)"
proof -
  let ?base = "padded z h leaves"
  have len: "length ?base = 2 ^ h" using assms(1) by (rule length_padded)
  have i: "i < 2 ^ h" using assms by simp
  have "recombine H (level H ?base 0 ! (i div 2 ^ 0))
       (map (\<lambda>m. level H ?base m ! sibling (i div 2 ^ m)) [0..<h])
       (map (\<lambda>m. i div 2 ^ m mod 2) [0..<h]) = level H ?base h ! 0"
    by (rule recombine_levels [OF len i]) simp
  then have "recombine H (leaves ! i)
       (map (\<lambda>m. level H ?base m ! sibling (i div 2 ^ m)) [0..<h])
       (map (\<lambda>m. i div 2 ^ m mod 2) [0..<h]) = Root (Construct H z h leaves)"
    using assms(2) by (simp add: nth_padded Root_Construct)
  then show ?thesis
    by (simp add: Path_Construct [OF assms(2)])
qed

lemma small_tree_example:
  "Root (Construct (\<lambda>l r. 2 * l + 3 * r + 1) 0 2 [5, 6, 7 :: nat]) = 104
   \<and> Path (Construct (\<lambda>l r. 2 * l + 3 * r + 1) 0 2 [5, 6, 7 :: nat]) 2 =
       Inr \<lparr> path_elements = [0, 29], path_index = [0, 1] \<rparr>
   \<and> recombine (\<lambda>l r. 2 * l + 3 * r + 1) 7 [0, 29] [0, 1] = (104::nat)
   \<and> Path (Construct (\<lambda>l r. 2 * l + 3 * r + 1) 0 2 [5, 6, 7 :: nat]) 3 = Inl IndexOutOfRange"
  by code_simp

text \<open>
  C5. In a tree of height 20 over at most \<open>2^20\<close> leaves, the path of every index that
  holds a leaf has 20 elements and 20 bits, and recombining it with that leaf, from the
  bottom up, gives the root.
\<close>

theorem path_reproduces_root:
  assumes "length leaves \<le> 2 ^ MERKLE_TREE_HEIGHT" and "i < length leaves"
  shows "\<exists>p. Path (Construct H z MERKLE_TREE_HEIGHT leaves) i = Inr p
     \<and> length (path_elements p) = 20 \<and> length (path_index p) = 20
     \<and> recombine H (leaves ! i) (path_elements p) (path_index p) =
         Root (Construct H z MERKLE_TREE_HEIGHT leaves)"
proof -
  have "MERKLE_TREE_HEIGHT = 20" by (simp add: MERKLE_TREE_HEIGHT_def)
  with path_reproduces_root_height [OF assms, of H z] show ?thesis by metis
qed

theorem path_reproduces_root_witness:
  "length [100 ..< 120 :: nat] \<le> 2 ^ MERKLE_TREE_HEIGHT \<and> 7 < length [100 ..< 120 :: nat]
   \<and> (\<exists>p. Path (Construct (\<lambda>l r. 2 * l + 3 * r + 1) 0 MERKLE_TREE_HEIGHT [100 ..< 120]) 7 = Inr p
     \<and> length (path_elements p) = 20 \<and> length (path_index p) = 20
     \<and> recombine (\<lambda>l r. 2 * l + 3 * r + 1) ([100 ..< 120] ! 7) (path_elements p) (path_index p) =
         Root (Construct (\<lambda>l r. 2 * l + 3 * r + 1) 0 MERKLE_TREE_HEIGHT [100 ..< 120]))"
proof -
  have a: "length [100 ..< 120 :: nat] \<le> 2 ^ MERKLE_TREE_HEIGHT"
    by (simp add: MERKLE_TREE_HEIGHT_def)
  have b: "7 < length [100 ..< 120 :: nat]" by simp
  from path_reproduces_root [OF a b] a b show ?thesis by blast
qed


section \<open>Properties of the reconstructor\<close>

lemma generateMerkleProof_asserts:
  assumes "getPastEvents c = Some events"
    and "isKnownRoot c (toHex (BigInt (Root (Construct (hashLeftRight c) (zero_value c)
            MERKLE_TREE_HEIGHT (leavesOf events)))) 32) = Some known"
    and "isSpent c (toHex (BigInt (nullifierHash d)) 32) = Some spent"
  shows "generateMerkleProof c d =
     (if \<not> known then Inl TreeCorrupted
      else if spent then Inl AlreadySpent
      else case find (\<lambda>e. returnValues_commitment e = toHex (BigInt (commitment d)) 32)
                  (sortEvents events) of
             None \<Rightarrow> Inl NotFound
           | Some e \<Rightarrow>
               (case Path (Construct (hashLeftRight c) (zero_value c) MERKLE_TREE_HEIGHT
                            (leavesOf events)) (leafIndex e) of
                  Inl err \<Rightarrow> Inl err
                | Inr p \<Rightarrow>
                    Inr \<lparr> root = Root (Construct (hashLeftRight c) (zero_value c)
                                     MERKLE_TREE_HEIGHT (leavesOf events)),
                          proof_elements = path_elements p,
                          proof_index = path_index p \<rparr>))"
  using assms by (simp add: generateMerkleProof_def Let_def split: option.splits)

text \<open>
  C3, as the source has it. The assertion on the root comes before the assertion on the
  nullifier. When the ledger reports the nullifier hash as spent and knows the rebuilt
  root, \<open>generateMerkleProof\<close> fails with \<open>AlreadySpent\<close>, whatever the events, also when
  none has the commitment; when the ledger does not know the root, it fails with
  \<open>TreeCorrupted\<close>.
\<close>

theorem generateMerkleProof_AlreadySpent:
  assumes "getPastEvents c = Some events"
    and "isKnownRoot c (toHex (BigInt (Root (Construct (hashLeftRight c) (zero_value c)
            MERKLE_TREE_HEIGHT (leavesOf events)))) 32) = Some known"
    and "isSpent c (toHex (BigInt (nullifierHash d)) 32) = Some True"
  shows "generateMerkleProof c d = Inl (if known then AlreadySpent else TreeCorrupted)"
  using assms by (simp add: generateMerkleProof_def Let_def)

theorem generateMerkleProof_AlreadySpent_witness:
  "generateMerkleProof (example_env \<lparr> isSpent := \<lambda>h. Some True \<rparr>)
     \<lparr> nullifier = 5, secret = 7, preimage = leBytes 5 31 @ leBytes 7 31,
       commitment = 99, nullifierHash = 31 \<rparr> = Inl AlreadySpent"
  using generateMerkleProof_AlreadySpent
    [of "example_env \<lparr> isSpent := \<lambda>h. Some True \<rparr>"
        "[\<lparr>leafIndex = 1, ev_commitment = 62\<rparr>, \<lparr>leafIndex = 0, ev_commitment = 17\<rparr>]"
        True]
  by (simp add: example_env_def)

text \<open>
  A ledger that reports the nullifier hash as spent and does not know the rebuilt root:
  the failure is \<open>TreeCorrupted\<close>, not \<open>AlreadySpent\<close>.
\<close>

theorem generateMerkleProof_unknown_root_counterexample:
  "isSpent (example_env \<lparr> isKnownRoot := \<lambda>r. Some False, isSpent := \<lambda>h. Some True \<rparr>)
      (toHex (BigInt 31) 32) = Some True
   \<and> generateMerkleProof
       (example_env \<lparr> isKnownRoot := \<lambda>r. Some False, isSpent := \<lambda>h. Some True \<rparr>)
       \<lparr> nullifier = 5, secret = 7, preimage = leBytes 5 31 @ leBytes 7 31,
         commitment = 62, nullifierHash = 31 \<rparr> = Inl TreeCorrupted"
  using generateMerkleProof_asserts
    [of "example_env \<lparr> isKnownRoot := \<lambda>r. Some False, isSpent := \<lambda>h. Some True \<rparr>"
        "[\<lparr>leafIndex = 1, ev_commitment = 62\<rparr>, \<lparr>leafIndex = 0, ev_commitment = 17\<rparr>]"
        False _ True]
  by (simp add: example_env_def)

section \<open>Properties of the wait for the receipt\<close>

lemma notMined_simps:
  "notMined None"
  "notMined (Some r) \<longleftrightarrow> blockNumber r = None \<or> blockNumber r = Some 0"
  by (auto simp: notMined_def split: option.splits)

lemma checkForTx_retry:
  "polls k = Answer r \<Longrightarrow> notMined r \<Longrightarrow> k \<le> attempts \<Longrightarrow>
     checkForTx polls attempts delay k = checkForTx polls attempts delay (k + 1)"
  by (subst checkForTx.simps) simp

lemma checkForTx_reject:
  "polls k = Answer r \<Longrightarrow> notMined r \<Longrightarrow> \<not> k \<le> attempts \<Longrightarrow>
     checkForTx polls attempts delay k =
       \<lparr> outcome = Some (Inl ConfirmationTimeout), queries = k + 1, waited = k * delay \<rparr>"
  by (subst checkForTx.simps) simp

lemma checkForTx_resolve:
  "polls k = Answer (Some r) \<Longrightarrow> \<not> notMined (Some r) \<Longrightarrow>
     checkForTx polls attempts delay k =
       \<lparr> outcome = Some (Inr r), queries = k + 1, waited = k * delay \<rparr>"
  by (subst checkForTx.simps) simp

lemma checkForTx_hang:
  "polls k = Rejected \<Longrightarrow>
     checkForTx polls attempts delay k =
       \<lparr> outcome = None, queries = k + 1, waited = k * delay \<rparr>"
  by (subst checkForTx.simps) simp

lemma checkForTx_timeout:
  assumes "\<forall>k\<le>Suc attempts. \<exists>r. polls k = Answer r \<and> notMined r"
  shows "k0 + n = Suc attempts \<Longrightarrow>
     checkForTx polls attempts delay k0 =
       \<lparr> outcome = Some (Inl ConfirmationTimeout), queries = attempts + 2,
         waited = (attempts + 1) * delay \<rparr>"
proof (induction n arbitrary: k0)
  case 0
  then have k0: "k0 = Suc attempts" by simp
  with assms obtain r where "polls k0 = Answer r" "notMined r" by blast
  then show ?case using checkForTx_reject [of polls k0 r attempts delay] k0 by simp
next
  case (Suc n)
  then have le: "k0 \<le> attempts" and nx: "(k0 + 1) + n = Suc attempts" by simp_all
  with assms obtain r where "polls k0 = Answer r" "notMined r"
    by (meson le_SucI)
  then have "checkForTx polls attempts delay k0 = checkForTx polls attempts delay (k0 + 1)"
    using le checkForTx_retry [of polls k0 r attempts delay] by simp
  with Suc.IH [OF nx] show ?case by simp
qed

lemma checkForTx_receipt:
  assumes "polls k = Answer (Some r)" and "\<not> notMined (Some r)"
    and "\<forall>j<k. \<exists>r'. polls j = Answer r' \<and> notMined r'"
    and "k \<le> Suc attempts"
  shows "k0 + n = k \<Longrightarrow>
     checkForTx polls attempts delay k0 =
       \<lparr> outcome = Some (Inr r), queries = k + 1, waited = k * delay \<rparr>"
proof (induction n arbitrary: k0)
  case 0
  then show ?case using assms(1,2) checkForTx_resolve [of polls k r attempts delay] by simp
next
  case (Suc n)
  then have lt: "k0 < k" and nx: "(k0 + 1) + n = k" by simp_all
  with assms(3) obtain r' where "polls k0 = Answer r'" "notMined r'" by blast
  moreover have "k0 \<le> attempts" using lt assms(4) by simp
  ultimately have "checkForTx polls attempts delay k0 = checkForTx polls attempts delay (k0 + 1)"
    using checkForTx_retry [of polls k0 r' attempts delay] by simp
  with Suc.IH [OF nx] show ?case by simp
qed

lemma checkForTx_bounded:
  "queries (checkForTx polls attempts delay k0) \<le> max (k0 + 1) (attempts + 2)
   \<and> waited (checkForTx polls attempts delay k0) =
       (queries (checkForTx polls attempts delay k0) - 1) * delay"
proof (induction polls attempts delay k0 rule: checkForTx.induct)
  case (1 polls attempts delay retryAttempt)
  show ?case
  proof (cases "polls retryAttempt")
    case Rejected
    then show ?thesis by (simp add: checkForTx_hang)
  next
    case (Answer result)
    show ?thesis
    proof (cases "notMined result")
      case True
      show ?thesis
      proof (cases "retryAttempt \<le> attempts")
        case le: True
        have "checkForTx polls attempts delay retryAttempt =
            checkForTx polls attempts delay (retryAttempt + 1)"
          using Answer True le checkForTx_retry [of polls retryAttempt result attempts delay]
          by simp
        with "1.IH" [OF Answer True le] le
        show ?thesis by (simp add: max_def split: if_splits)
      next
        case False
        then show ?thesis
          using Answer True checkForTx_reject [of polls retryAttempt result attempts delay]
          by simp
      qed
    next
      case False
      then obtain r where "result = Some r" by (cases result) (auto simp: notMined_def)
      with Answer False show ?thesis by (simp add: checkForTx_resolve)
    qed
  qed
qed

text \<open>
  What the wait does while every query is answered. \<open>waitForTxReceipt\<close> makes at most
  \<open>attempts + 2\<close> queries, one every \<open>delay\<close> milliseconds. When every query is answered
  and none shows a mined receipt, it rejects with \<open>ConfirmationTimeout\<close> after exactly
  \<open>attempts + 2\<close> queries (62 with the default of 60 attempts, after 61 seconds); the
  rejection carries nothing of the transaction. The first query that shows a receipt
  with a block number resolves the promise with that receipt. (A block number is a
  positive number here: the source takes 0 for none.)
\<close>

theorem waitForTxReceipt_bounded:
  "(queries (waitForTxReceipt web3 txHash attempts delay) \<le> attempts + 2
    \<and> waited (waitForTxReceipt web3 txHash attempts delay) =
        (queries (waitForTxReceipt web3 txHash attempts delay) - 1) * delay)
   \<and> ((\<forall>k\<le>Suc attempts. \<exists>r. getTransactionReceipt web3 txHash k = Answer r \<and> notMined r)
        \<longrightarrow> waitForTxReceipt web3 txHash attempts delay =
              \<lparr> outcome = Some (Inl ConfirmationTimeout), queries = attempts + 2,
                waited = (attempts + 1) * delay \<rparr>)
   \<and> ((\<forall>k. getTransactionReceipt web3 txHash k = Answer None)
        \<longrightarrow> waitForTxReceipt_default web3 txHash =
              \<lparr> outcome = Some (Inl ConfirmationTimeout), queries = 62, waited = 61000 \<rparr>)
   \<and> (getTransactionReceipt web3 txHash k = Answer (Some r)
        \<and> blockNumber r = Some b \<and> 0 < b \<and> k \<le> Suc attempts
        \<and> (\<forall>j<k. \<exists>r'. getTransactionReceipt web3 txHash j = Answer r' \<and> notMined r')
        \<longrightarrow> waitForTxReceipt web3 txHash attempts delay =
              \<lparr> outcome = Some (Inr r), queries = k + 1, waited = k * delay \<rparr>)"
proof -
  let ?polls = "getTransactionReceipt web3 txHash"
  have a: "queries (checkForTx ?polls attempts delay 0) \<le> attempts + 2
      \<and> waited (checkForTx ?polls attempts delay 0) =
          (queries (checkForTx ?polls attempts delay 0) - 1) * delay"
    using checkForTx_bounded [of ?polls attempts delay 0] by simp
  have b: "checkForTx ?polls attempts delay 0 =
      \<lparr> outcome = Some (Inl ConfirmationTimeout), queries = attempts + 2,
        waited = (attempts + 1) * delay \<rparr>"
    if "\<forall>k\<le>Suc attempts. \<exists>r. ?polls k = Answer r \<and> notMined r"
    using checkForTx_timeout [OF that, of 0 "Suc attempts" delay] by simp
  have c: "checkForTx ?polls 60 1000 0 =
      \<lparr> outcome = Some (Inl ConfirmationTimeout), queries = 62, waited = 61000 \<rparr>"
    if "\<forall>k. ?polls k = Answer None"
  proof -
    have "\<forall>k\<le>Suc 60. \<exists>r. ?polls k = Answer r \<and> notMined r"
      using that by (simp add: notMined_simps)
    from checkForTx_timeout [OF this, of 0 "Suc 60" 1000] show ?thesis by simp
  qed
  have d: "checkForTx ?polls attempts delay 0 =
      \<lparr> outcome = Some (Inr r), queries = k + 1, waited = k * delay \<rparr>"
    if "?polls k = Answer (Some r)" "blockNumber r = Some b" "0 < b" "k \<le> Suc attempts"
      "\<forall>j<k. \<exists>r'. ?polls j = Answer r' \<and> notMined r'"
  proof -
    have "\<not> notMined (Some r)" using that(2,3) by (simp add: notMined_simps)
    from checkForTx_receipt [of ?polls k r attempts 0 k delay] that(1,4,5) this
    show ?thesis by simp
  qed
  from a b c d show ?thesis
    by (simp only: waitForTxReceipt_def waitForTxReceipt_default_def) blast
qed

theorem waitForTxReceipt_bounded_witness:
  "waitForTxReceipt_default (example_env \<lparr> getTransactionReceipt := \<lambda>h k. Answer None \<rparr>) ''0xcb'' =
     \<lparr> outcome = Some (Inl ConfirmationTimeout), queries = 62, waited = 61000 \<rparr>
   \<and> waitForTxReceipt example_env ''0xcb'' 60 1000 =
     \<lparr> outcome = Some (Inr \<lparr>blockNumber = Some 17036120\<rparr>), queries = 4, waited = 3000 \<rparr>"
proof -
  have "\<forall>j<3. \<exists>r'. getTransactionReceipt example_env ''0xcb'' j = Answer r' \<and> notMined r'"
    by (simp add: example_env_def notMined_simps)
  then show ?thesis
    using waitForTxReceipt_bounded
      [of "example_env \<lparr> getTransactionReceipt := \<lambda>h k. Answer None \<rparr>" "''0xcb''" 60 1000]
      waitForTxReceipt_bounded
      [of example_env "''0xcb''" 60 1000 3 "\<lparr>blockNumber = Some 17036120\<rparr>" 17036120]
    by (simp add: example_env_def)
qed

lemma checkForTx_rejected:
  assumes "polls k = Rejected"
    and "\<forall>j<k. \<exists>r'. polls j = Answer r' \<and> notMined r'"
    and "k \<le> Suc attempts"
  shows "k0 + n = k \<Longrightarrow>
     checkForTx polls attempts delay k0 =
       \<lparr> outcome = None, queries = k + 1, waited = k * delay \<rparr>"
proof (induction n arbitrary: k0)
  case 0
  then show ?case using assms(1) checkForTx_hang [of polls k attempts delay] by simp
next
  case (Suc n)
  then have lt: "k0 < k" and nx: "(k0 + 1) + n = k" by simp_all
  with assms(2) obtain r' where "polls k0 = Answer r'" "notMined r'" by blast
  moreover have "k0 \<le> attempts" using lt assms(3) by simp
  ultimately have "checkForTx polls attempts delay k0 = checkForTx polls attempts delay (k0 + 1)"
    using checkForTx_retry [of polls k0 r' attempts delay] by simp
  with Suc.IH [OF nx] show ?case by simp
qed

text \<open>
  C9 fails on the source when a query is rejected. The receipt of such a transaction
  never becomes available, and the claim asks for a rejection with
  \<open>ConfirmationTimeout\<close> after a bounded number of queries. In the source the rejected
  query rejects the promise of \<open>checkForTx\<close>, which nobody awaits or catches: no timer is
  set, neither \<open>resolve\<close> nor \<open>reject\<close> is called, and the promise of \<open>waitForTxReceipt\<close>
  never settles. Every other call of the ledger is awaited in a function whose
  rejection reaches the \<open>catch\<close> of \<open>runConsole\<close>.
\<close>

theorem waitForTxReceipt_rejected_query:
  assumes "getTransactionReceipt web3 txHash k = Rejected"
    and "\<forall>j<k. \<exists>r'. getTransactionReceipt web3 txHash j = Answer r' \<and> notMined r'"
    and "k \<le> Suc attempts"
  shows "waitForTxReceipt web3 txHash attempts delay =
     \<lparr> outcome = None, queries = k + 1, waited = k * delay \<rparr>"
  using checkForTx_rejected [OF assms, of 0 k delay]
  by (simp add: waitForTxReceipt_def)

theorem waitForTxReceipt_rejected_query_witness:
  "waitForTxReceipt_default
     (example_env \<lparr> getTransactionReceipt :=
                      \<lambda>h k. if k = 0 then Answer None else Rejected \<rparr>) ''0xcb'' =
     \<lparr> outcome = None, queries = 2, waited = 1000 \<rparr>"
proof -
  let ?env = "example_env \<lparr> getTransactionReceipt :=
                              \<lambda>h k. if k = 0 then Answer None else Rejected \<rparr>"
  have a: "getTransactionReceipt ?env ''0xcb'' 1 = Rejected" by simp
  have b: "\<forall>j<1. \<exists>r'. getTransactionReceipt ?env ''0xcb'' j = Answer r' \<and> notMined r'"
    by (simp add: notMined_simps)
  have c: "(1::nat) \<le> Suc 60" by simp
  from waitForTxReceipt_rejected_query [OF a b c, of 1000] show ?thesis
    by (simp add: waitForTxReceipt_default_def)
qed

section \<open>Properties of the relayed withdrawal\<close>

lemma createDeposit_error: "createDeposit H n s = Inl e \<Longrightarrow> e = NumberDoesNotFit"
  by (auto simp: createDeposit_def leInt2Buff_eq split: if_splits)

lemma decodeNote_error: "decodeNote H nt = Inl e \<Longrightarrow> e = NumberDoesNotFit"
  by (auto simp: decodeNote_def Let_def dest: createDeposit_error)

lemma parseDigits_error: "parseDigits b s acc = Inl e \<Longrightarrow> e = NotANumber"
  by (induction b s acc rule: parseDigits.induct) (auto split: option.splits if_splits)

lemma digitsValue_error: "digitsValue b s = Inl e \<Longrightarrow> e = NotANumber"
  by (cases "parseDigits b s 0") (auto simp: digitsValue_def dest: parseDigits_error split: if_splits)

lemma StringToBigInt_error: "StringToBigInt s = Inl e \<Longrightarrow> e = NotANumber"
  unfolding StringToBigInt_def Let_def
  by (cases "digitsValue 10 (tl (trim s))")
     (auto dest: digitsValue_error split: if_splits)

lemma bigInt_error: "bigInt x = Inl e \<Longrightarrow> e = NotANumber"
  by (cases x) (auto simp: bigInt_def dest: StringToBigInt_error)

lemma Path_error: "Path t i = Inl e \<Longrightarrow> e = IndexOutOfRange"
  by (auto simp: Path_def split: if_splits)

lemma generateMerkleProof_error:
  "generateMerkleProof c d = Inl e \<Longrightarrow>
     e \<in> {LedgerCallFailed, TreeCorrupted, AlreadySpent, NotFound, IndexOutOfRange}"
  by (auto simp: generateMerkleProof_def Let_def dest: Path_error
      split: option.splits if_splits sum.splits)

lemma generateProof_error:
  "generateProof c nt recipient relayer fee refund = Inl e \<Longrightarrow>
     e \<in> {NumberDoesNotFit, LedgerCallFailed, TreeCorrupted, AlreadySpent, NotFound,
          IndexOutOfRange, NotANumber, ProofFailed}"
  unfolding generateProof_def Let_def
  by (auto dest: decodeNote_error generateMerkleProof_error bigInt_error
      split: sum.splits option.splits)

lemma toWei_gwei_error: "toWei_gwei s = Inl e \<Longrightarrow> e = InvalidAmount"
  by (auto simp: toWei_gwei_def Let_def split: if_splits)

lemma relayFee_error: "relayFee resp = Inl e \<Longrightarrow> e = InvalidAmount"
  by (cases "toWei_gwei (gasPrices_fast resp)") (auto simp: relayFee_def dest: toWei_gwei_error)

lemma checkForTx_outcome:
  "outcome (checkForTx polls attempts delay k0) = Some (Inl e) \<Longrightarrow> e = ConfirmationTimeout"
proof (induction polls attempts delay k0 rule: checkForTx.induct)
  case (1 polls attempts delay retryAttempt)
  show ?case
  proof (cases "polls retryAttempt")
    case Rejected
    with "1.prems" show ?thesis by (simp add: checkForTx_hang)
  next
    case (Answer result)
    show ?thesis
    proof (cases "notMined result")
      case True
      show ?thesis
      proof (cases "retryAttempt \<le> attempts")
        case le: True
        have "checkForTx polls attempts delay retryAttempt =
            checkForTx polls attempts delay (retryAttempt + 1)"
          using Answer True le checkForTx_retry [of polls retryAttempt result attempts delay]
          by simp
        with "1.IH" [OF Answer True le] "1.prems" show ?thesis by simp
      next
        case False
        then show ?thesis
          using Answer True "1.prems"
            checkForTx_reject [of polls retryAttempt result attempts delay]
          by simp
      qed
    next
      case False
      then obtain r where "result = Some r" by (cases result) (auto simp: notMined_def)
      with Answer False "1.prems" show ?thesis by (simp add: checkForTx_resolve)
    qed
  qed
qed

lemma waitForTxReceipt_default_outcome:
  "outcome (waitForTxReceipt_default web3 txHash) \<noteq> Some (Inl NetworkMismatch)"
  by (auto simp: waitForTxReceipt_default_def waitForTxReceipt_def dest: checkForTx_outcome)

text \<open>What \<open>withdrawRelay\<close> does once the network check has passed.\<close>

lemma withdrawRelay_after_check:
  assumes "relay_status tornado (relayUrl @ ''/status'') = Some resp"
    and "net_getId tornado = Some chainId"
    and "netId resp = JNumber chainId \<or> netId resp = JString ''*''"
  shows "withdrawRelay tornado nt recipient relayUrl =
     (case relayFee resp of
        Inl e \<Rightarrow> ([], Some (Inl e))
      | Inr fee \<Rightarrow>
          (case generateProof tornado nt (JString recipient)
                  (JString (relayerAddress resp)) fee 0 of
             Inl e \<Rightarrow> ([], Some (Inl e))
           | Inr (pf, args) \<Rightarrow>
               (case relay_post tornado (relayUrl @ ''/relay'')
                       \<lparr> body_contract = contract_address tornado, body_proof = pf,
                         publicSignals = args \<rparr> of
                  None \<Rightarrow>
                    ([\<lparr> body_contract = contract_address tornado, body_proof = pf,
                        publicSignals = args \<rparr>], Some (Inl RelayUnreachable))
                | Some txHash \<Rightarrow>
                    ([\<lparr> body_contract = contract_address tornado, body_proof = pf,
                        publicSignals = args \<rparr>],
                     outcome (waitForTxReceipt tornado txHash 60 1000)))))"
  using assms
  by (auto simp: withdrawRelay_def Let_def waitForTxReceipt_default_def
      split: sum.splits option.splits prod.splits)

lemma withdrawRelay_later_errors:
  assumes "relay_status tornado (relayUrl @ ''/status'') = Some resp"
    and "net_getId tornado = Some chainId"
    and "netId resp = JNumber chainId \<or> netId resp = JString ''*''"
  shows "snd (withdrawRelay tornado nt recipient relayUrl) \<noteq> Some (Inl NetworkMismatch)"
proof
  assume a: "snd (withdrawRelay tornado nt recipient relayUrl) = Some (Inl NetworkMismatch)"
  show False
  proof (cases "relayFee resp")
    case (Inl e)
    with a show False
      using relayFee_error [OF Inl] by (simp add: withdrawRelay_after_check [OF assms])
  next
    case fee: (Inr fee)
    show False
    proof (cases "generateProof tornado nt (JString recipient)
                    (JString (relayerAddress resp)) fee 0")
      case (Inl e)
      with a fee show False
        using generateProof_error [OF Inl] by (auto simp: withdrawRelay_after_check [OF assms])
    next
      case (Inr r)
      obtain pf args where r: "r = (pf, args)" by (cases r)
      show False
      proof (cases "relay_post tornado (relayUrl @ ''/relay'')
                       \<lparr> body_contract = contract_address tornado, body_proof = pf,
                         publicSignals = args \<rparr>")
        case None
        with a fee Inr r show False by (simp add: withdrawRelay_after_check [OF assms])
      next
        case (Some txHash)
        with a fee Inr r show False
          using waitForTxReceipt_default_outcome [of tornado txHash]
          by (simp add: withdrawRelay_after_check [OF assms] waitForTxReceipt_default_def)
      qed
    qed
  qed
qed

section \<open>Properties of the proof request\<close>

lemma parseDigits_append:
  "parseDigits b (xs @ ys) acc =
     (case parseDigits b xs acc of Inl e \<Rightarrow> Inl e | Inr v \<Rightarrow> parseDigits b ys v)"
  by (induction xs arbitrary: acc) (auto split: option.splits)

lemma hexVal_0: "hexVal CHR ''0'' = Some 0"
  by (simp add: hexVal_def)

lemma hexDigit_0: "hexDigit 0 = CHR ''0''"
  by code_simp

lemma hexVal_lt16: "hexVal c = Some d \<Longrightarrow> d < 16"
  by (auto simp: hexVal_def Let_def split: if_splits)

lemma parseDigits_zeros: "parseDigits 16 (replicate k CHR ''0'') 0 = Inr 0"
  by (induction k) (simp_all add: hexVal_0)

lemma parseDigits_toString16: "parseDigits 16 (toString16 n) 0 = Inr n"
proof (induction n rule: toString16.induct)
  case (1 n)
  show ?case
  proof (cases "n < 16")
    case True
    then show ?thesis by (simp add: toString16_small hexVal_hexDigit)
  next
    case False
    have "n mod 16 < 16" by simp
    then have "hexVal (hexDigit (n mod 16)) = Some (n mod 16)" by (rule hexVal_hexDigit)
    with "1.IH" [OF False] show ?thesis
      by (simp add: toString16_big False parseDigits_append)
  qed
qed

lemma toString16_nonempty: "toString16 n \<noteq> []"
  using length_toString16_gt [of 0 n] by (cases "n = 0") (auto simp: toString16_small)

lemma hex_toString16: "list_all (\<lambda>c. hexVal c \<noteq> None) (toString16 n)"
proof (induction n rule: toString16.induct)
  case (1 n)
  show ?case
  proof (cases "n < 16")
    case True
    then show ?thesis by (simp add: toString16_small hexVal_hexDigit)
  next
    case False
    have "n mod 16 < 16" by simp
    then have "hexVal (hexDigit (n mod 16)) = Some (n mod 16)" by (rule hexVal_hexDigit)
    with "1.IH" [OF False] show ?thesis
      by (simp add: toString16_big False)
  qed
qed

lemma hex_not_space: "hexVal c \<noteq> None \<Longrightarrow> \<not> isStrWhiteSpace c"
  by (auto simp: hexVal_def isStrWhiteSpace_def Let_def split: if_splits)

lemma dropWhile_hd: "s \<noteq> [] \<Longrightarrow> \<not> P (hd s) \<Longrightarrow> dropWhile P s = s"
  by (cases s) simp_all

lemma trim_id:
  assumes "s \<noteq> []" and "\<not> isStrWhiteSpace (hd s)" and "\<not> isStrWhiteSpace (last s)"
  shows "trim s = s"
proof -
  have "dropWhile isStrWhiteSpace s = s" using assms(1,2) by (rule dropWhile_hd)
  moreover have "dropWhile isStrWhiteSpace (rev s) = rev s"
    using assms(1,3) by (intro dropWhile_hd) (simp_all add: hd_rev)
  ultimately show ?thesis by (simp add: trim_def)
qed

lemma trim_hex_literal:
  assumes "ds \<noteq> []" and "list_all (\<lambda>c. hexVal c \<noteq> None) ds"
  shows "trim (''0x'' @ ds) = ''0x'' @ ds"
proof (rule trim_id)
  show "''0x'' @ ds \<noteq> []" by simp
  show "\<not> isStrWhiteSpace (hd (''0x'' @ ds))"
    using hex_not_space [of "CHR ''0''"] by (simp add: hexVal_0)
  have "last ds \<in> set ds" using assms(1) by simp
  with assms(2) have "hexVal (last ds) \<noteq> None" by (simp add: list_all_iff)
  then show "\<not> isStrWhiteSpace (last (''0x'' @ ds))"
    using assms(1) hex_not_space by simp
qed

lemma StringToBigInt_hex:
  assumes "ds \<noteq> []" and "list_all (\<lambda>c. hexVal c \<noteq> None) ds"
  shows "StringToBigInt (''0x'' @ ds) = map_sum id int (parseDigits 16 ds 0)"
proof -
  have t: "trim (''0x'' @ ds) = ''0x'' @ ds" using assms by (rule trim_hex_literal)
  show ?thesis
    by (simp only: StringToBigInt_def Let_def t) (simp add: digitsValue_def assms(1))
qed

lemma bigInt_toHex: "bigInt (JString (toHex (BigInt n) len)) = Inr (int n)"
proof -
  let ?ds = "replicate (2 * len - length (toString16 n)) CHR ''0'' @ toString16 n"
  have ne: "?ds \<noteq> []" by (simp add: toString16_nonempty)
  have hex: "list_all (\<lambda>c. hexVal c \<noteq> None) ?ds"
    using hex_toString16 [of n] by (auto simp: list_all_iff hexVal_0 split: if_splits)
  have "parseDigits 16 ?ds 0 = Inr n"
    by (simp add: parseDigits_append parseDigits_zeros parseDigits_toString16)
  with StringToBigInt_hex [OF ne hex] show ?thesis
    by (simp add: bigInt_def toHex_BigInt)
qed

lemma toLowerHex_id: "hexVal c \<noteq> None \<Longrightarrow> toLowerHex c = c \<longleftrightarrow> lowerHex c"
  by (auto simp: toLowerHex_def lowerHex_def)

lemma hex_parse:
  assumes "list_all (\<lambda>c. hexVal c \<noteq> None) ds"
  shows "\<exists>v. parseDigits 16 ds 0 = Inr v
     \<and> (ds \<noteq> [] \<longrightarrow> padStart (toString16 v) (length ds) CHR ''0'' = map toLowerHex ds)"
  using assms
proof (induction ds rule: rev_induct)
  case Nil
  show ?case by simp
next
  case (snoc c xs)
  then obtain v' where v': "parseDigits 16 xs 0 = Inr v'"
    and pad: "xs \<noteq> [] \<longrightarrow> padStart (toString16 v') (length xs) CHR ''0'' = map toLowerHex xs"
    by auto
  from snoc.prems obtain d where d: "hexVal c = Some d" by auto
  then have d16: "d < 16" by (rule hexVal_lt16)
  have lc: "toLowerHex c = hexDigit d" using d by (simp add: toLowerHex_def)
  have parse: "parseDigits 16 (xs @ [c]) 0 = Inr (v' * 16 + d)"
    using v' d d16 by (simp add: parseDigits_append)
  have "padStart (toString16 (v' * 16 + d)) (length (xs @ [c])) CHR ''0'' =
      map toLowerHex (xs @ [c])"
  proof (cases "v' = 0")
    case True
    have "map toLowerHex xs = replicate (length xs) CHR ''0''"
    proof (cases "xs = []")
      case True
      then show ?thesis by simp
    next
      case False
      then obtain m where m: "length xs = Suc m" by (cases xs) auto
      from False pad True have "padStart (toString16 0) (length xs) CHR ''0'' = map toLowerHex xs"
        by simp
      then have "replicate m CHR ''0'' @ [CHR ''0''] = map toLowerHex xs"
        by (simp add: padStart_def toString16_small hexDigit_0 m)
      then show ?thesis by (simp add: m replicate_append_same)
    qed
    then have "replicate (length xs) CHR ''0'' @ [hexDigit d] = map toLowerHex (xs @ [c])"
      by (simp add: lc)
    then show ?thesis using True d16 by (simp add: padStart_def toString16_small)
  next
    case False
    then have big: "\<not> v' * 16 + d < 16" by simp
    have dm: "(v' * 16 + d) div 16 = v'" "(v' * 16 + d) mod 16 = d" using d16 by simp_all
    have ts: "toString16 (v' * 16 + d) = toString16 v' @ [hexDigit d]"
      by (simp only: toString16_big [OF big] dm)
    have ne: "xs \<noteq> []" using v' False by (cases xs) auto
    with pad have p: "replicate (length xs - length (toString16 v')) CHR ''0'' @ toString16 v' =
        map toLowerHex xs"
      by (simp add: padStart_def)
    then have "length xs - length (toString16 v') + length (toString16 v') = length xs"
      by (metis length_append length_replicate length_map)
    then have le: "length (toString16 v') \<le> length xs" by simp
    show ?thesis using p le by (simp add: padStart_def ts Suc_diff_le lc)
  qed
  with parse show ?case by simp
qed

lemma toHex_bigInt_address:
  assumes "addressFormat a"
  shows "\<exists>v. bigInt (JString a) = Inr (int v)
     \<and> toHex (BigInt v) 20 = ''0x'' @ map toLowerHex (drop 2 a)"
proof -
  from assms have tk: "take 2 a = ''0x''" and len: "length a = 42"
    and hex: "list_all (\<lambda>c. hexVal c \<noteq> None) (drop 2 a)"
    by (simp_all add: addressFormat_def hexLiteral_def)
  from len have ne: "drop 2 a \<noteq> []" by auto
  from hex_parse [OF hex] ne obtain v
    where v: "parseDigits 16 (drop 2 a) 0 = Inr v"
      and pad: "padStart (toString16 v) (length (drop 2 a)) CHR ''0'' = map toLowerHex (drop 2 a)"
    by auto
  have "a = take 2 a @ drop 2 a" by simp
  then have a: "a = ''0x'' @ drop 2 a" by (simp only: tk)
  have "toHex (BigInt v) 20 = ''0x'' @ padStart (toString16 v) 40 CHR ''0''"
    by (simp add: toHex_def Let_def)
  also have "\<dots> = ''0x'' @ map toLowerHex (drop 2 a)" using pad len by simp
  finally have h: "toHex (BigInt v) 20 = ''0x'' @ map toLowerHex (drop 2 a)" .
  have "StringToBigInt (''0x'' @ drop 2 a) = map_sum id int (parseDigits 16 (drop 2 a) 0)"
    using ne hex by (rule StringToBigInt_hex)
  then have "bigInt (JString a) = Inr (int v)"
    using a v by (simp add: bigInt_def)
  with h show ?thesis by blast
qed

lemma address_lowercase_iff:
  assumes "addressFormat a"
  shows "''0x'' @ map toLowerHex (drop 2 a) = a \<longleftrightarrow> list_all lowerHex (drop 2 a)"
proof -
  from assms have tk: "take 2 a = ''0x''"
    and hex: "list_all (\<lambda>c. hexVal c \<noteq> None) (drop 2 a)"
    by (simp_all add: addressFormat_def hexLiteral_def)
  have "a = take 2 a @ drop 2 a" by simp
  then have a: "a = ''0x'' @ drop 2 a" by (simp only: tk)
  have "(''0x'' @ map toLowerHex (drop 2 a) = a) = (map toLowerHex (drop 2 a) = drop 2 a)"
    by (subst (2) a) simp
  also have "\<dots> = (\<forall>c\<in>set (drop 2 a). toLowerHex c = c)"
    using map_eq_conv [of toLowerHex "drop 2 a" id] by simp
  also have "\<dots> = list_all lowerHex (drop 2 a)"
    using hex toLowerHex_id by (auto simp: list_all_iff)
  finally show ?thesis .
qed

lemma toHex_bigint_nonneg: "toHex_bigint (int n) len = toHex (BigInt n) len"
  by (simp add: toHex_bigint_def)

lemma generateProof_args:
  assumes "generateProof c nt recipient relayer fee refund = Inr (pf, args)"
  shows "\<exists>rel. bigInt relayer = Inr rel \<and> length args = 6
     \<and> args ! 3 = toHex_bigint rel 20 \<and> args ! 4 = toHex_bigint fee 32"
  using assms unfolding generateProof_def Let_def
  by (auto split: sum.splits option.splits)

lemma generateProof_ok:
  assumes "decodeNote (pedersenHash c) nt = Inr dep"
    and "generateMerkleProof c dep = Inr mp"
    and "bigInt recipient = Inr rcp"
    and "bigInt relayer = Inr rel"
    and "genWitnessAndProve c
           \<lparr> in_root = root mp, in_nullifierHash = nullifierHash dep,
             in_recipient = rcp, in_relayer = rel, in_fee = fee,
             in_refund = refund, in_nullifier = nullifier dep,
             in_secret = secret dep, in_pathElements = proof_elements mp,
             in_pathIndices = proof_index mp \<rparr> = Some pf"
  shows "generateProof c nt recipient relayer fee refund =
     Inr (pf, [toHex (BigInt (root mp)) 32, toHex (BigInt (nullifierHash dep)) 32,
               toHex_bigint rcp 20, toHex_bigint rel 20,
               toHex_bigint fee 32, toHex_bigint refund 32])"
  using assms by (simp add: generateProof_def Let_def)

lemma decimalValue_zeros:
  "decimalValue (ds @ replicate k CHR ''0'') = decimalValue ds * 10 ^ k"
proof -
  have "foldl (\<lambda>acc c. acc * 10 + (of_char c - 48)) a (replicate k CHR ''0'') = a * 10 ^ k"
    for a :: nat
    by (induction k arbitrary: a) simp_all
  then show ?thesis by (simp add: decimalValue_def)
qed

lemma decimalValue_Cons:
  "decimalValue (c # ds) = (of_char c - 48) * 10 ^ length ds + decimalValue ds"
proof -
  have "foldl (\<lambda>acc c. acc * 10 + (of_char c - 48)) a ds =
        a * 10 ^ length ds + foldl (\<lambda>acc c. acc * 10 + (of_char c - 48)) 0 ds" for a :: nat
  proof (induction ds arbitrary: a rule: rev_induct)
    case Nil
    show ?case by simp
  next
    case (snoc x xs)
    show ?case by (simp add: snoc.IH [of a] algebra_simps)
  qed
  from this [of "of_char c - 48"] show ?thesis by (simp add: decimalValue_def)
qed

lemma decimalValue_Nil: "decimalValue [] = 0"
  by (simp add: decimalValue_def)

lemma decimalValue_replicate: "decimalValue (replicate k CHR ''0'') = 0"
  using decimalValue_zeros [of "[]" k] by (simp add: decimalValue_Nil)

lemma toWei_gwei_5: "toWei_gwei ''5'' = Inr 5000000000"
  by (simp add: toWei_gwei_def isDecimalDigit_def decimalValue_zeros decimalValue_Cons
      decimalValue_Nil decimalValue_replicate Let_def)

lemma relayFee_5: "gasPrices_fast resp = ''5'' \<Longrightarrow> relayFee resp = Inr 5000000000000000"
  by (simp add: relayFee_def toWei_gwei_5)

lemma toWei_gwei_examples:
  "toWei_gwei ''1.5'' = Inr 1500000000"
  "toWei_gwei ''-.5'' = Inr (- 500000000)"
  "toWei_gwei ''1e+21'' = Inl InvalidAmount"
  "toWei_gwei ''0.1234567891'' = Inl InvalidAmount"
  "toWei_gwei ''1.2.3'' = Inl InvalidAmount"
  by (simp_all add: toWei_gwei_def isDecimalDigit_def decimalValue_zeros decimalValue_Cons
      decimalValue_Nil decimalValue_replicate Let_def)

lemma bigInt_examples:
  "bigInt (JString ''1'') = Inr 1"
  "bigInt (JString ''0b101'') = Inr 5"
  "bigInt (JString '' -12 '') = Inr (- 12)"
  "bigInt (JString ''0x'') = Inl NotANumber"
  "bigInt (JString ''-0x1'') = Inl NotANumber"
  "bigInt (JString []) = Inr 0"
  by (simp_all add: bigInt_def StringToBigInt_def trim_def isStrWhiteSpace_def digitsValue_def
      hexVal_def Let_def)

lemma toHex_BigInt_inj: "toHex (BigInt a) len = toHex (BigInt b) len \<longleftrightarrow> a = b"
proof
  assume "toHex (BigInt a) len = toHex (BigInt b) len"
  then have "bigInt (JString (toHex (BigInt a) len)) = bigInt (JString (toHex (BigInt b) len))"
    by simp
  then show "a = b" by (simp only: bigInt_toHex sum.inject of_nat_eq_iff)
qed simp

lemma hexDigit_table:
  "hexDigit 0 = CHR ''0''" "hexDigit 1 = CHR ''1''" "hexDigit 2 = CHR ''2''"
  "hexDigit 3 = CHR ''3''" "hexDigit 4 = CHR ''4''" "hexDigit 5 = CHR ''5''"
  "hexDigit 6 = CHR ''6''" "hexDigit 7 = CHR ''7''" "hexDigit 8 = CHR ''8''"
  "hexDigit 9 = CHR ''9''" "hexDigit 10 = CHR ''a''" "hexDigit 11 = CHR ''b''"
  "hexDigit 12 = CHR ''c''" "hexDigit 13 = CHR ''d''" "hexDigit 14 = CHR ''e''"
  "hexDigit 15 = CHR ''f''" "hexDigit (Suc 0) = CHR ''1''"
  by code_simp+

lemma example_find:
  "find (\<lambda>e. returnValues_commitment e = toHex (BigInt 62) 32)
     (sortEvents [\<lparr>leafIndex = 1, ev_commitment = 62\<rparr>, \<lparr>leafIndex = 0, ev_commitment = 17\<rparr>]) =
   Some \<lparr>leafIndex = 1, ev_commitment = 62\<rparr>"
  by (simp add: sortEvents_def returnValues_commitment_def toHex_BigInt_inj)

lemma example_address_formats:
  "addressFormat example_recipient"
  "addressFormat (relayerAddress example_status)"
  by (simp_all add: example_recipient_def example_status_def addressFormat_def hexLiteral_def
      hexVal_def)

lemma example_relayer_lowercase:
  "''0x'' @ map toLowerHex (drop 2 (relayerAddress example_status)) =
     ''0x6a31736e7490abe5d5676be059dff064ab4ac754''"
  by (simp add: example_status_def toLowerHex_def hexVal_def hexDigit_table)

lemma example_decodeNote:
  "\<exists>dep. decodeNote length example_note = Inr dep \<and> commitment dep = 62
     \<and> nullifierHash dep = 31"
  using decodeNote_format [OF example_note_format, of length] by auto

lemma example_generateMerkleProof:
  assumes "commitment dep = 62"
  shows "\<exists>mp. generateMerkleProof example_env dep = Inr mp"
proof -
  let ?events = "[\<lparr>leafIndex = 1, ev_commitment = 62\<rparr>, \<lparr>leafIndex = 0, ev_commitment = 17\<rparr>]"
  let ?tree = "Construct (hashLeftRight example_env) (zero_value example_env)
                 MERKLE_TREE_HEIGHT (leavesOf ?events)"
  have ev: "getPastEvents example_env = Some ?events" by (simp add: example_env_def)
  have kr: "isKnownRoot example_env (toHex (BigInt (Root ?tree)) 32) = Some True"
    by (simp add: example_env_def)
  have sp: "isSpent example_env (toHex (BigInt (nullifierHash dep)) 32) = Some False"
    by (simp add: example_env_def)
  have len: "leafIndex \<lparr>leafIndex = 1, ev_commitment = 62\<rparr> < length (leavesOf ?events)"
    by (simp add: leavesOf_def sortEvents_def)
  from Path_Construct [OF len] obtain p
    where p: "Path ?tree (leafIndex \<lparr>leafIndex = 1, ev_commitment = 62\<rparr>) = Inr p"
    by blast
  have "generateMerkleProof example_env dep =
      (case Path ?tree (leafIndex \<lparr>leafIndex = 1, ev_commitment = 62\<rparr>) of
         Inl err \<Rightarrow> Inl err
       | Inr p \<Rightarrow>
           Inr \<lparr> root = Root ?tree, proof_elements = path_elements p,
                 proof_index = path_index p \<rparr>)"
    by (simp only: generateMerkleProof_asserts [OF ev kr sp] assms example_find
        not_True_eq_False if_False option.case)
  then show ?thesis by (simp only: p sum.case) blast
qed

lemma example_generateProof:
  shows "\<exists>args. generateProof example_env example_note (JString example_recipient)
       (JString (relayerAddress example_status)) fee 0 = Inr ((), args)"
proof -
  from example_decodeNote obtain dep
    where dep: "decodeNote (pedersenHash example_env) example_note = Inr dep"
        "commitment dep = 62"
    by (auto simp: example_env_def)
  from example_generateMerkleProof [OF dep(2)] obtain mp
    where mp: "generateMerkleProof example_env dep = Inr mp" by blast
  from toHex_bigInt_address [OF example_address_formats(1)] obtain rcp
    where rcp: "bigInt (JString example_recipient) = Inr (int rcp)" by blast
  from toHex_bigInt_address [OF example_address_formats(2)] obtain rel
    where rel: "bigInt (JString (relayerAddress example_status)) = Inr (int rel)" by blast
  show ?thesis
    by (rule exI, rule generateProof_ok [OF dep(1) mp rcp rel]) (simp add: example_env_def)
qed

lemma example_wait:
  "outcome (waitForTxReceipt example_env txHash 60 1000) =
     Some (Inr \<lparr>blockNumber = Some 17036120\<rparr>)"
proof -
  let ?polls = "getTransactionReceipt example_env txHash"
  have a: "?polls 3 = Answer (Some \<lparr>blockNumber = Some 17036120\<rparr>)"
    by (simp add: example_env_def)
  have b: "\<not> notMined (Some \<lparr>blockNumber = Some 17036120\<rparr>)"
    by (simp add: notMined_simps)
  have c: "\<forall>j<3. \<exists>r'. ?polls j = Answer r' \<and> notMined r'"
    by (simp add: example_env_def notMined_simps)
  from checkForTx_receipt [of ?polls 3 "\<lparr>blockNumber = Some 17036120\<rparr>" 60 0 3 1000] a b c
  show ?thesis by (simp add: waitForTxReceipt_def)
qed

lemma example_withdrawRelay:
  assumes "nid = JNumber 1 \<or> nid = JString ''*''"
  shows "\<exists>body.
     withdrawRelay (example_env \<lparr> relay_status := \<lambda>u. Some (example_status \<lparr> netId := nid \<rparr>) \<rparr>)
       example_note example_recipient ''http://localhost:8000'' =
     ([body], Some (Inr \<lparr>blockNumber = Some 17036120\<rparr>))"
proof -
  define resp where "resp = example_status \<lparr> netId := nid \<rparr>"
  define tornado where "tornado = example_env \<lparr> relay_status := \<lambda>u. Some resp \<rparr>"
  have s: "relay_status tornado (''http://localhost:8000'' @ ''/status'') = Some resp"
    and g: "net_getId tornado = Some 1"
    and n: "netId resp = JNumber 1 \<or> netId resp = JString ''*''"
    using assms by (auto simp: tornado_def resp_def example_env_def)
  have fee: "relayFee resp = Inr 5000000000000000"
    by (rule relayFee_5) (simp add: resp_def example_status_def)
  have gm: "generateMerkleProof tornado d = generateMerkleProof example_env d" for d
    unfolding tornado_def generateMerkleProof_def Let_def
    by (simp cong: option.case_cong sum.case_cong if_cong)
  have same: "generateProof tornado nt rc rl f rf = generateProof example_env nt rc rl f rf"
    for nt rc rl f rf
    unfolding generateProof_def gm Let_def unfolding tornado_def
    by (simp cong: option.case_cong sum.case_cong if_cong)
  from example_generateProof [of 5000000000000000] obtain args
    where gp: "generateProof example_env example_note (JString example_recipient)
       (JString (relayerAddress example_status)) 5000000000000000 0 = Inr ((), args)"
    by blast
  have ra: "relayerAddress resp = relayerAddress example_status" by (simp add: resp_def)
  have post: "relay_post tornado u b =
      Some ''0xcb21ae8cad723818c6bc7273e83e00c8393fcdbe74802ce5d562acad691a2a7b''" for u b
    by (simp add: tornado_def example_env_def)
  have wait: "outcome (waitForTxReceipt tornado tx 60 1000) =
      Some (Inr \<lparr>blockNumber = Some 17036120\<rparr>)" for tx
    using example_wait [of tx] by (simp add: tornado_def waitForTxReceipt_def)
  have "\<exists>body. withdrawRelay tornado example_note example_recipient ''http://localhost:8000'' =
       ([body], Some (Inr \<lparr>blockNumber = Some 17036120\<rparr>))"
    by (simp add: withdrawRelay_after_check [OF s g n] fee same ra gp post wait)
  then show ?thesis by (simp only: tornado_def resp_def)
qed

text \<open>
  C6, as the source has it. \<open>withdrawRelay\<close> fails with \<open>NetworkMismatch\<close> exactly when
  the relay answered \<open>/status\<close>, the ledger answered its network id, and the relay's
  \<open>netId\<close> is neither identical to that number (\<open>===\<close>, no coercion) nor the string \<open>'*'\<close>.
  When \<open>netId\<close> is that number or \<open>'*'\<close> the withdrawal proceeds: the fee is computed
  from the quote, the proof is generated, the body is posted to \<open>/relay\<close> and the receipt
  is awaited, and none of these steps fails with \<open>NetworkMismatch\<close>.
\<close>

theorem withdrawRelay_NetworkMismatch:
  "(snd (withdrawRelay tornado nt recipient relayUrl) = Some (Inl NetworkMismatch)) =
     (\<exists>resp chainId. relay_status tornado (relayUrl @ ''/status'') = Some resp
        \<and> net_getId tornado = Some chainId
        \<and> netId resp \<noteq> JNumber chainId \<and> netId resp \<noteq> JString ''*'')
   \<and> (relay_status tornado (relayUrl @ ''/status'') = Some resp
        \<and> net_getId tornado = Some chainId
        \<and> (netId resp = JNumber chainId \<or> netId resp = JString ''*'')
       \<longrightarrow> withdrawRelay tornado nt recipient relayUrl =
            (case relayFee resp of
               Inl e \<Rightarrow> ([], Some (Inl e))
             | Inr fee \<Rightarrow>
                 (case generateProof tornado nt (JString recipient)
                         (JString (relayerAddress resp)) fee 0 of
                    Inl e \<Rightarrow> ([], Some (Inl e))
                  | Inr (pf, args) \<Rightarrow>
                      (case relay_post tornado (relayUrl @ ''/relay'')
                              \<lparr> body_contract = contract_address tornado, body_proof = pf,
                                publicSignals = args \<rparr> of
                         None \<Rightarrow>
                           ([\<lparr> body_contract = contract_address tornado, body_proof = pf,
                               publicSignals = args \<rparr>], Some (Inl RelayUnreachable))
                       | Some txHash \<Rightarrow>
                           ([\<lparr> body_contract = contract_address tornado, body_proof = pf,
                               publicSignals = args \<rparr>],
                            outcome (waitForTxReceipt tornado txHash 60 1000))))))"
proof -
  have a: "snd (withdrawRelay tornado nt recipient relayUrl) \<noteq> Some (Inl NetworkMismatch)"
    if "relay_status tornado (relayUrl @ ''/status'') = Some r" "net_getId tornado = Some c"
      "netId r = JNumber c \<or> netId r = JString ''*''" for r c
    using that by (rule withdrawRelay_later_errors)
  have b: "snd (withdrawRelay tornado nt recipient relayUrl) = Some (Inl NetworkMismatch)"
    if "relay_status tornado (relayUrl @ ''/status'') = Some r" "net_getId tornado = Some c"
      "netId r \<noteq> JNumber c" "netId r \<noteq> JString ''*''" for r c
    using that by (simp add: withdrawRelay_def)
  have c: "snd (withdrawRelay tornado nt recipient relayUrl) \<noteq> Some (Inl NetworkMismatch)"
    if "relay_status tornado (relayUrl @ ''/status'') = None
        \<or> net_getId tornado = None"
    using that by (auto simp: withdrawRelay_def split: option.splits)
  have iff: "(snd (withdrawRelay tornado nt recipient relayUrl) = Some (Inl NetworkMismatch)) =
     (\<exists>resp chainId. relay_status tornado (relayUrl @ ''/status'') = Some resp
        \<and> net_getId tornado = Some chainId
        \<and> netId resp \<noteq> JNumber chainId \<and> netId resp \<noteq> JString ''*'')"
    using a b c
    by (cases "relay_status tornado (relayUrl @ ''/status'')"; cases "net_getId tornado") auto
  show ?thesis
    using iff withdrawRelay_after_check [of tornado relayUrl resp chainId nt recipient]
    by blast
qed

theorem withdrawRelay_NetworkMismatch_witness:
  "snd (withdrawRelay
          (example_env \<lparr> relay_status := \<lambda>u. Some (example_status \<lparr> netId := JNumber 42 \<rparr>) \<rparr>)
          example_note example_recipient ''http://localhost:8000'') = Some (Inl NetworkMismatch)
   \<and> (\<exists>body.
        withdrawRelay
          (example_env \<lparr> relay_status := \<lambda>u. Some (example_status \<lparr> netId := JNumber 1 \<rparr>) \<rparr>)
          example_note example_recipient ''http://localhost:8000'' =
        ([body], Some (Inr \<lparr>blockNumber = Some 17036120\<rparr>)))
   \<and> (\<exists>body.
        withdrawRelay
          (example_env \<lparr> relay_status := \<lambda>u. Some (example_status \<lparr> netId := JString ''*'' \<rparr>) \<rparr>)
          example_note example_recipient ''http://localhost:8000'' =
        ([body], Some (Inr \<lparr>blockNumber = Some 17036120\<rparr>)))"
proof -
  have "snd (withdrawRelay
          (example_env \<lparr> relay_status := \<lambda>u. Some (example_status \<lparr> netId := JNumber 42 \<rparr>) \<rparr>)
          example_note example_recipient ''http://localhost:8000'') = Some (Inl NetworkMismatch)"
    using withdrawRelay_NetworkMismatch
      [of "example_env \<lparr> relay_status := \<lambda>u. Some (example_status \<lparr> netId := JNumber 42 \<rparr>) \<rparr>"
          example_note example_recipient "''http://localhost:8000''"]
    by (simp add: example_env_def example_status_def)
  moreover note example_withdrawRelay [of "JNumber 1"]
    example_withdrawRelay [of "JString ''*''"]
  ultimately show ?thesis by simp
qed

text \<open>
  A relay that sends \<open>netId\<close> as the text \<open>1\<close>, as the specification's interface has it, to
  a ledger whose id is 1: the text names the ledger's network, and the withdrawal fails
  with \<open>NetworkMismatch\<close> before anything is posted.
\<close>

theorem netId_text_counterexample:
  "bigInt (JString ''1'') = Inr 1
   \<and> net_getId
       (example_env \<lparr> relay_status := \<lambda>u. Some (example_status \<lparr> netId := JString ''1'' \<rparr>) \<rparr>)
     = Some 1
   \<and> withdrawRelay
       (example_env \<lparr> relay_status := \<lambda>u. Some (example_status \<lparr> netId := JString ''1'' \<rparr>) \<rparr>)
       example_note example_recipient ''http://localhost:8000'' =
     ([], Some (Inl NetworkMismatch))"
  by (simp add: bigInt_examples withdrawRelay_def example_env_def example_status_def)

text \<open>
  C7, as the source has it. When the relay quotes \<open>fast: 5\<close>, its \<open>netId\<close> is the ledger's
  id as a number (or \<open>'*'\<close>) and a body is posted: the fee is 5 gwei times 1000000, that
  is \<open>5 * 10^9 * 10^6\<close> wei, and it is entry 4 of the posted \<open>publicSignals\<close>. Entry 3 is
  \<open>toHex(bigInt(relayerAddress), 20)\<close>. For a \<open>relayerAddress\<close> that is an address (\<open>0x\<close>
  and 40 hexadecimal digits) it is that address with its digits in lowercase: it
  denotes the same number, and it is the same text exactly when \<open>relayerAddress\<close> has no
  uppercase digit.
\<close>

theorem withdrawRelay_fee_and_relayer:
  assumes "relay_status tornado (relayUrl @ ''/status'') = Some resp"
    and "net_getId tornado = Some chainId"
    and "netId resp = JNumber chainId \<or> netId resp = JString ''*''"
    and "gasPrices_fast resp = ''5''"
    and "fst (withdrawRelay tornado nt recipient relayUrl) = [body]"
  shows "relayFee resp = Inr (5 * 10 ^ 9 * 1000000)
     \<and> publicSignals body ! 4 = toHex (BigInt (5 * 10 ^ 9 * 1000000)) 32
     \<and> (\<exists>rel. bigInt (JString (relayerAddress resp)) = Inr rel
           \<and> publicSignals body ! 3 = toHex_bigint rel 20)
     \<and> (addressFormat (relayerAddress resp) \<longrightarrow>
          publicSignals body ! 3 = ''0x'' @ map toLowerHex (drop 2 (relayerAddress resp))
          \<and> bigInt (JString (publicSignals body ! 3)) = bigInt (JString (relayerAddress resp))
          \<and> (publicSignals body ! 3 = relayerAddress resp
               \<longleftrightarrow> list_all lowerHex (drop 2 (relayerAddress resp))))"
proof -
  have fee: "relayFee resp = Inr 5000000000000000"
    using assms(4) by (rule relayFee_5)
  from withdrawRelay_after_check [OF assms(1,2,3), of nt recipient] assms(5) fee
  obtain pf args
    where gp: "generateProof tornado nt (JString recipient) (JString (relayerAddress resp))
             5000000000000000 0 = Inr (pf, args)"
      and body: "body = \<lparr> body_contract = contract_address tornado, body_proof = pf,
                         publicSignals = args \<rparr>"
    by (auto split: sum.splits prod.splits option.splits)
  from generateProof_args [OF gp] obtain rel
    where rel: "bigInt (JString (relayerAddress resp)) = Inr rel"
      "args ! 3 = toHex_bigint rel 20" "args ! 4 = toHex_bigint 5000000000000000 32"
    by blast
  have e4: "publicSignals body ! 4 = toHex (BigInt 5000000000000000) 32"
    using rel(3) body toHex_bigint_nonneg [of 5000000000000000 32] by simp
  have addr: "publicSignals body ! 3 = ''0x'' @ map toLowerHex (drop 2 (relayerAddress resp))
          \<and> bigInt (JString (publicSignals body ! 3)) = bigInt (JString (relayerAddress resp))
          \<and> (publicSignals body ! 3 = relayerAddress resp
               \<longleftrightarrow> list_all lowerHex (drop 2 (relayerAddress resp)))"
    if af: "addressFormat (relayerAddress resp)"
  proof -
    from toHex_bigInt_address [OF af] obtain v
      where v: "bigInt (JString (relayerAddress resp)) = Inr (int v)"
        "toHex (BigInt v) 20 = ''0x'' @ map toLowerHex (drop 2 (relayerAddress resp))"
      by blast
    with rel have r: "rel = int v" by simp
    then have e3: "publicSignals body ! 3 = toHex (BigInt v) 20"
      using rel(2) body by (simp add: toHex_bigint_nonneg)
    have "bigInt (JString (publicSignals body ! 3)) = Inr (int v)"
      by (simp only: e3 bigInt_toHex)
    with e3 v address_lowercase_iff [OF af] show ?thesis by simp
  qed
  from fee e4 rel(1,2) body addr show ?thesis by auto
qed

theorem withdrawRelay_fee_and_relayer_witness:
  "relayFee example_status = Inr 5000000000000000
   \<and> map (\<lambda>b. publicSignals b ! 4)
        (fst (withdrawRelay example_env example_note example_recipient ''http://localhost:8000'')) =
      [toHex (BigInt 5000000000000000) 32]
   \<and> map (\<lambda>b. publicSignals b ! 3)
        (fst (withdrawRelay example_env example_note example_recipient ''http://localhost:8000'')) =
      [''0x6a31736e7490abe5d5676be059dff064ab4ac754'']
   \<and> map (\<lambda>b. bigInt (JString (publicSignals b ! 3)))
        (fst (withdrawRelay example_env example_note example_recipient ''http://localhost:8000'')) =
      [bigInt (JString (relayerAddress example_status))]"
proof -
  have e: "example_env \<lparr> relay_status := \<lambda>u. Some (example_status \<lparr> netId := JNumber 1 \<rparr>) \<rparr>
      = example_env"
    by (simp add: example_env_def example_status_def)
  from example_withdrawRelay [of "JNumber 1"] obtain body
    where body: "fst (withdrawRelay example_env example_note example_recipient
        ''http://localhost:8000'') = [body]"
    by (simp only: e) auto
  have h: "relay_status example_env (''http://localhost:8000'' @ ''/status'') = Some example_status"
    "net_getId example_env = Some 1"
    "netId example_status = JNumber 1 \<or> netId example_status = JString ''*''"
    "gasPrices_fast example_status = ''5''"
    by (simp_all add: example_env_def example_status_def)
  note t = withdrawRelay_fee_and_relayer [OF h body]
  from t have fee: "relayFee example_status = Inr 5000000000000000"
    and e4: "publicSignals body ! 4 = toHex (BigInt 5000000000000000) 32"
    by simp_all
  from t example_address_formats(2)
  have e3: "publicSignals body ! 3 =
      ''0x'' @ map toLowerHex (drop 2 (relayerAddress example_status))"
    and same: "bigInt (JString (publicSignals body ! 3)) =
      bigInt (JString (relayerAddress example_status))"
    by blast+
  from e3 have e3': "publicSignals body ! 3 = ''0x6a31736e7490abe5d5676be059dff064ab4ac754''"
    by (simp only: example_relayer_lowercase)
  show ?thesis
    by (simp only: body list.map fee e4 same) (simp only: e3' simp_thms)
qed

text \<open>
  The relay address of the README's log has uppercase digits: entry 3 of the posted
  \<open>publicSignals\<close> is that address in lowercase, another text. And with the \<open>netId\<close> of
  the specification's example, the text \<open>1\<close> for the ledger 1, nothing is posted at all.
\<close>

theorem relayer_case_counterexample:
  "relay_status example_env (''http://localhost:8000'' @ ''/status'') = Some example_status
   \<and> relayerAddress example_status = ''0x6A31736e7490AbE5D5676be059DFf064AB4aC754''
   \<and> map (\<lambda>b. publicSignals b ! 3)
        (fst (withdrawRelay example_env example_note example_recipient ''http://localhost:8000'')) =
      [''0x6a31736e7490abe5d5676be059dff064ab4ac754'']
   \<and> fst (withdrawRelay
        (example_env \<lparr> relay_status := \<lambda>u. Some (example_status \<lparr> netId := JString ''1'' \<rparr>) \<rparr>)
        example_note example_recipient ''http://localhost:8000'') = []"
proof -
  from example_generateProof [of 5000000000000000] obtain args
    where gp: "generateProof example_env example_note (JString example_recipient)
       (JString (relayerAddress example_status)) 5000000000000000 0 = Inr ((), args)"
    by blast
  from generateProof_args [OF gp] obtain rel
    where rel: "bigInt (JString (relayerAddress example_status)) = Inr rel"
      "args ! 3 = toHex_bigint rel 20"
    by blast
  from toHex_bigInt_address [OF example_address_formats(2)] obtain v
    where v: "bigInt (JString (relayerAddress example_status)) = Inr (int v)"
      "toHex (BigInt v) 20 = ''0x'' @ map toLowerHex (drop 2 (relayerAddress example_status))"
    by blast
  have rv: "rel = int v" using rel(1) v(1) by simp
  have "args ! 3 = toHex (BigInt v) 20"
    using rel(2) by (simp only: rv toHex_bigint_nonneg)
  also have "\<dots> = ''0x6a31736e7490abe5d5676be059dff064ab4ac754''"
    by (simp only: v(2) example_relayer_lowercase)
  finally have a3: "args ! 3 = ''0x6a31736e7490abe5d5676be059dff064ab4ac754''" .
  have h: "relay_status example_env (''http://localhost:8000'' @ ''/status'') = Some example_status"
    "net_getId example_env = Some 1"
    "netId example_status = JNumber 1 \<or> netId example_status = JString ''*''"
    by (simp_all add: example_env_def example_status_def)
  have fee: "relayFee example_status = Inr 5000000000000000"
    by (rule relayFee_5) (simp add: example_status_def)
  have "fst (withdrawRelay example_env example_note example_recipient ''http://localhost:8000'') =
      [\<lparr> body_contract = contract_address example_env, body_proof = (),
         publicSignals = args \<rparr>]"
    by (simp add: withdrawRelay_after_check [OF h] fee gp split: option.splits)
  moreover have "fst (withdrawRelay
        (example_env \<lparr> relay_status := \<lambda>u. Some (example_status \<lparr> netId := JString ''1'' \<rparr>) \<rparr>)
        example_note example_recipient ''http://localhost:8000'') = []"
    by (simp add: withdrawRelay_def example_env_def example_status_def)
  ultimately show ?thesis using a3 h(1) by (simp add: example_status_def)
qed


end
